theory Spec2Isabelle
  imports Main
begin

section \<open>Data model\<close>

text \<open>
  The catalogue of \<^verbatim>\<open>course_metadata/models.py\<close> as a relational store. Every Django
  model that the verified operations read or write is a record type, every table a list
  of rows in primary-key order, and every model instance is identified with its row:
  a relation attribute (\<^verbatim>\<open>self.official_version\<close>, \<^verbatim>\<open>self.seats\<close>,
  \<^verbatim>\<open>self.url_slug_history\<close>) is a query on the store at the moment it is read.
  The wall clock \<^verbatim>\<open>datetime.datetime.now(pytz.UTC)\<close> is the parameter \<open>now\<close>, a
  number of seconds. Fields that none of the operations below inspect are kept in one
  association list per row (\<open>course_fields\<close>, \<open>run_fields\<close>, ...), so that "copy every
  field" still has something to copy.
\<close>

type_synonym fields = "(string \<times> string) list"

datatype course_run_status = Unpublished | LegalReview | InternalReview | Reviewed | Published

text \<open>\<^verbatim>\<open>DraftModelMixin\<close>: the draft flag and the official row's link to its draft row.\<close>

record draft_model =
  pk :: nat
  draft :: bool
  draft_version :: "nat option"

record course = draft_model +
  partner :: nat
  uuid :: string
  key :: string
  course_type :: string
  canonical_course_run :: "nat option"
  data_modified_timestamp :: "int option"
  course_fields :: fields

record course_run = draft_model +
  run_course :: nat
  run_key :: string
  status :: course_run_status
  end_date :: "int option"
  enrollment_end :: "int option"
  go_live_date :: "int option"
  announcement :: "int option"
  slug :: string
  type_is_marketable :: bool
  run_fields :: fields

record seat = draft_model +
  seat_course_run :: nat
  seat_type :: string
  price :: int
  upgrade_deadline :: "int option"
  upgrade_deadline_override :: "int option"
  seat_fields :: fields

record course_entitlement = draft_model +
  entitlement_course :: nat
  mode :: string
  entitlement_fields :: fields

record restricted_course_run = draft_model +
  restricted_course_run :: nat
  restriction_type :: "string option"

record course_url_slug =
  slug_pk :: nat
  slug_course :: nat
  slug_partner :: nat
  url_slug :: string
  is_active :: bool
  is_active_on_draft :: bool

text \<open>
  The store. \<^verbatim>\<open>Partner\<close> lives in \<^verbatim>\<open>core.models\<close>; the only attribute read here is
  \<^verbatim>\<open>has_marketing_site\<close>, kept as the list of the partners that have one.
\<close>

record db =
  courses :: "course list"
  course_runs :: "course_run list"
  seats :: "seat list"
  entitlements :: "course_entitlement list"
  restricted_runs :: "restricted_course_run list"
  url_slugs :: "course_url_slug list"
  marketing_site_partners :: "nat list"

text \<open>
  What the operations take from outside \<^verbatim>\<open>models.py\<close>: library fields, feature
  toggles and helpers of \<^verbatim>\<open>utils.py\<close>. They are parameters, and every theorem holds
  for each value of them.
  \<^item> \<open>auto_slug\<close>: the text \<^verbatim>\<open>AutoSlugWithSlashesField\<close> stores when a slug record is
    saved with an empty \<^verbatim>\<open>url_slug\<close> (generated from the course title);
  \<^item> \<open>key_deprecated\<close>: \<^verbatim>\<open>CourseKey.from_string(key).deprecated\<close>, \<open>None\<close> for a key
    that does not parse, where \<^verbatim>\<open>from_string\<close> raises \<^verbatim>\<open>InvalidKeyError\<close>;
  \<^item> \<open>str_lower\<close>: Python's \<^verbatim>\<open>str.lower\<close>, and \<open>db_iexact\<close>: the comparison of the
    database for the lookup \<^verbatim>\<open>url_slug__iexact\<close>, which folds case as its collation does;
  \<^item> \<open>publish_course_runs_to_marketing_site\<close>: the waffle switch of that name;
  \<^item> \<open>upgrade_deadline_for\<close>: \<^verbatim>\<open>subtract_deadline_delta(end, PUBLISHER_UPGRADE_DEADLINE_DAYS)\<close>;
  \<^item> the three subdirectory-slug toggles, the format regex, \<^verbatim>\<open>is_ocm_course\<close> and
    \<^verbatim>\<open>get_slug_for_course\<close>, used by \<^verbatim>\<open>set_subdirectory_slug\<close>.
\<close>

record env =
  auto_slug :: "course_url_slug list \<Rightarrow> course \<Rightarrow> string"
  key_deprecated :: "string \<Rightarrow> bool option"
  str_lower :: "string \<Rightarrow> string"
  db_iexact :: "string \<Rightarrow> string \<Rightarrow> bool"
  publish_course_runs_to_marketing_site :: bool
  upgrade_deadline_for :: "int option \<Rightarrow> int option"
  subdirectory_slug_format_enabled :: bool
  subdirectory_slug_format_for_exec_ed_enabled :: bool
  subdirectory_slug_format_for_bootcamp_enabled :: bool
  matches_subdirectory_format :: "string \<Rightarrow> bool"
  is_ocm_course :: "course \<Rightarrow> bool"
  get_slug_for_course :: "db \<Rightarrow> course \<Rightarrow> string option \<times> string"

text \<open>Every \<^verbatim>\<open>raise\<close> of the modelled code, and the failures of the database layer.\<close>

datatype error =
  SlugInUse string
  | UniqueViolation
  | PartnerMismatch
  | MultipleObjectsReturned
  | DoesNotExist
  | SeatTypeSwitch
  | SlugGenerationFailed string
  | InvalidKeyError
  | InvalidOperation

section \<open>Queries\<close>

definition get_pk :: "('a draft_model_scheme) list \<Rightarrow> nat \<Rightarrow> ('a draft_model_scheme) option" where
  "get_pk tbl p = find (\<lambda>r. pk r = p) tbl"

text \<open>
  \<^verbatim>\<open>DraftModelMixin.official_version\<close>: the row whose \<^verbatim>\<open>draft_version\<close> is this one,
  \<open>None\<close> when there is none.
\<close>

definition official_version :: "('a draft_model_scheme) list \<Rightarrow> nat \<Rightarrow> ('a draft_model_scheme) option" where
  "official_version tbl p = find (\<lambda>r. draft_version r = Some p) tbl"

text \<open>
  The key of a row inserted: a number that no row of the table has. (The database counts
  on and never gives the key of a deleted row again; the operations below only need the
  key to be new, and no statement depends on its number.) \<open>put\<close> is the \<^verbatim>\<open>UPDATE\<close> of
  the row with the key of the instance.
\<close>

definition new_pk :: "nat list \<Rightarrow> nat" where
  "new_pk ps = Suc (foldr max ps 0)"

definition put :: "('a draft_model_scheme) \<Rightarrow> ('a draft_model_scheme) list \<Rightarrow> ('a draft_model_scheme) list" where
  "put obj tbl = map (\<lambda>r. if pk r = pk obj then obj else r) tbl"

section \<open>Slug registry\<close>

text \<open>Python truthiness of a slug argument: \<^verbatim>\<open>None\<close> and the empty string are false.\<close>

definition truthy :: "string option \<Rightarrow> bool" where
  "truthy s = (case s of None \<Rightarrow> False | Some t \<Rightarrow> t \<noteq> [])"

definition url_slug_history :: "db \<Rightarrow> nat \<Rightarrow> course_url_slug list" where
  "url_slug_history d c = filter (\<lambda>u. slug_course u = c) (url_slugs d)"

text \<open>
  \<^verbatim>\<open>Course.active_url_slug\<close>. The request cache and \<^verbatim>\<open>_prefetched_active_slug\<close> hold
  results of this same query and are left out.
\<close>

definition active_url_slug :: "db \<Rightarrow> course \<Rightarrow> string option" where
  "active_url_slug d self =
     (let active_url = find is_active (url_slug_history d (pk self));
          active_url =
            (if active_url = None \<and> draft self \<and> official_version (courses d) (pk self) \<noteq> None
             then find is_active_on_draft
                    (url_slug_history d (pk (the (official_version (courses d) (pk self)))))
             else active_url)
      in map_option url_slug active_url)"

text \<open>
  \<^verbatim>\<open>CourseUrlSlug.save\<close>: the partner of the record must be the partner of its course;
  the field fills in an empty text; the table is \<^verbatim>\<open>unique_together (partner, url_slug)\<close>.
  \<open>stored_text\<close> is what the slug field keeps for the value it is given.
\<close>

definition stored_text :: "env \<Rightarrow> db \<Rightarrow> course \<Rightarrow> string option \<Rightarrow> string" where
  "stored_text e d c s = (if truthy s then the s else auto_slug e (url_slugs d) c)"

definition violates_unique :: "db \<Rightarrow> course_url_slug \<Rightarrow> bool" where
  "violates_unique d u =
     (\<exists>v \<in> set (url_slugs d). slug_pk v \<noteq> slug_pk u \<and> slug_partner v = slug_partner u \<and> url_slug v = url_slug u)"

definition check_url_slug :: "db \<Rightarrow> course_url_slug \<Rightarrow> error option" where
  "check_url_slug d u =
     (case get_pk (courses d) (slug_course u) of
        None \<Rightarrow> Some DoesNotExist
      | Some c \<Rightarrow> if slug_partner u \<noteq> partner c then Some PartnerMismatch
                 else if violates_unique d u then Some UniqueViolation
                 else None)"

definition save_url_slug :: "db \<Rightarrow> course_url_slug \<Rightarrow> error + db" where
  "save_url_slug d u =
     (case check_url_slug d u of
        Some err \<Rightarrow> Inl err
      | None \<Rightarrow> Inr (d\<lparr>url_slugs := map (\<lambda>v. if slug_pk v = slug_pk u then u else v) (url_slugs d)\<rparr>))"

definition create_url_slug :: "db \<Rightarrow> course_url_slug \<Rightarrow> error + db" where
  "create_url_slug d u =
     (let u' = u\<lparr>slug_pk := new_pk (map slug_pk (url_slugs d))\<rparr>
      in case check_url_slug d u' of
           Some err \<Rightarrow> Inl err
         | None \<Rightarrow> Inr (d\<lparr>url_slugs := url_slugs d @ [u']\<rparr>))"

definition delete_url_slugs :: "(course_url_slug \<Rightarrow> bool) \<Rightarrow> db \<Rightarrow> db" where
  "delete_url_slugs P d = d\<lparr>url_slugs := filter (\<lambda>u. \<not> P u) (url_slugs d)\<rparr>"

text \<open>
  \<^verbatim>\<open>Course.set_data_modified_timestamp\<close>: both rows of the course key get the current
  time. (The \<^verbatim>\<open>Program\<close> rows it also touches are outside the store.)
\<close>

definition set_data_modified_timestamp :: "int \<Rightarrow> course \<Rightarrow> db \<Rightarrow> db" where
  "set_data_modified_timestamp now self d =
     d\<lparr>courses := map (\<lambda>c. if key c = key self then c\<lparr>data_modified_timestamp := Some now\<rparr> else c)
                     (courses d)\<rparr>"

text \<open>A loop whose body can raise: the first error ends it.\<close>

fun for_each :: "('a \<Rightarrow> 's \<Rightarrow> error + 's) \<Rightarrow> 'a list \<Rightarrow> 's \<Rightarrow> error + 's" where
  "for_each f [] s = Inr s"
| "for_each f (x # xs) s = (case f x s of Inl err \<Rightarrow> Inl err | Inr s' \<Rightarrow> for_each f xs s')"

text \<open>
  Case 0 of \<^verbatim>\<open>set_active_url_slug\<close>: some slug record with this text, compared without
  case, belongs to a course other than this one and its draft or official counterpart.
\<close>

definition excluded_course :: "db \<Rightarrow> course \<Rightarrow> nat option" where
  "excluded_course d self =
     (if draft self then map_option pk (official_version (courses d) (pk self))
      else draft_version self)"

definition slug_already_in_use :: "env \<Rightarrow> db \<Rightarrow> course \<Rightarrow> string \<Rightarrow> bool" where
  "slug_already_in_use e d self s =
     (\<exists>u \<in> set (url_slugs d). db_iexact e (url_slug u) (str_lower e s)
         \<and> slug_course u \<noteq> pk self \<and> Some (slug_course u) \<noteq> excluded_course d self)"

text \<open>The draft branch of \<^verbatim>\<open>set_active_url_slug\<close>, lines 1996 to 2029.\<close>

definition mark_official_entries :: "string option \<Rightarrow> nat \<Rightarrow> db \<Rightarrow> error + db" where
  "mark_official_entries s off d =
     for_each (\<lambda>url_entry d'. save_url_slug d' (url_entry\<lparr>is_active_on_draft := (Some (url_slug url_entry) = s)\<rparr>))
       (filter (\<lambda>u. is_active_on_draft u \<or> Some (url_slug u) = s) (url_slug_history d off)) d"

text \<open>What that loop does to one record of the table.\<close>

definition mark_entry :: "string option \<Rightarrow> nat \<Rightarrow> course_url_slug \<Rightarrow> course_url_slug" where
  "mark_entry s off v =
     (if slug_course v = off \<and> (is_active_on_draft v \<or> Some (url_slug v) = s)
      then v\<lparr>is_active_on_draft := (Some (url_slug v) = s)\<rparr> else v)"

definition found_in_official :: "string option \<Rightarrow> nat \<Rightarrow> db \<Rightarrow> bool" where
  "found_in_official s off d =
     (\<exists>u \<in> set (url_slug_history d off). Some (url_slug u) = s)"

definition update_or_create_active :: "env \<Rightarrow> course \<Rightarrow> string option \<Rightarrow> db \<Rightarrow> error + db" where
  "update_or_create_active e self s d =
     (case filter is_active (url_slug_history d (pk self)) of
        [] \<Rightarrow> create_url_slug d
                \<lparr>slug_pk = 0, slug_course = pk self, slug_partner = partner self,
                 url_slug = stored_text e d self s, is_active = True, is_active_on_draft = False\<rparr>
      | [obj] \<Rightarrow> save_url_slug d
                (obj\<lparr>slug_course := pk self, slug_partner := partner self, is_active := True,
                     url_slug := stored_text e d self s\<rparr>)
      | _ \<Rightarrow> Inl MultipleObjectsReturned)"

definition set_active_url_slug_draft :: "env \<Rightarrow> int \<Rightarrow> db \<Rightarrow> course \<Rightarrow> string option \<Rightarrow> error + db" where
  "set_active_url_slug_draft e now d self s =
     (let active_draft_url_slug_object = find is_active (url_slug_history d (pk self));
          changed = (case active_draft_url_slug_object of
                       None \<Rightarrow> False | Some a \<Rightarrow> Some (url_slug a) \<noteq> s);
          case2 = (\<lambda>d1. case update_or_create_active e self s d1 of
                     Inl err \<Rightarrow> Inl err
                   | Inr d2 \<Rightarrow>
                       Inr (if active_draft_url_slug_object = None \<or> changed
                            then set_data_modified_timestamp now self d2 else d2))
      in case official_version (courses d) (pk self) of
           None \<Rightarrow> case2 d
         | Some off \<Rightarrow>
             (case mark_official_entries s (pk off) d of
                Inl err \<Rightarrow> Inl err
              | Inr d1 \<Rightarrow>
                  if found_in_official s (pk off) d then
                    (let d2 = (if changed then set_data_modified_timestamp now self d1 else d1)
                     in Inr (case active_draft_url_slug_object of
                               None \<Rightarrow> d2
                             | Some a \<Rightarrow> delete_url_slugs (\<lambda>u. slug_pk u = slug_pk a) d2))
                  else case2 d1))"

text \<open>The official branch, lines 2030 to 2049.\<close>

definition update_or_create_by_text :: "env \<Rightarrow> course \<Rightarrow> string option \<Rightarrow> db \<Rightarrow> error + (db \<times> string \<times> bool)" where
  "update_or_create_by_text e self s d =
     (case filter (\<lambda>u. Some (url_slug u) = s) (url_slug_history d (pk self)) of
        [] \<Rightarrow> (let t = stored_text e d self s in
               case create_url_slug d
                      \<lparr>slug_pk = 0, slug_course = pk self, slug_partner = partner self,
                       url_slug = t, is_active = True, is_active_on_draft = True\<rparr> of
                 Inl err \<Rightarrow> Inl err
               | Inr d' \<Rightarrow> Inr (d', t, True))
      | [obj] \<Rightarrow> (let t = stored_text e d self s in
                  case save_url_slug d
                         (obj\<lparr>url_slug := t, is_active := True, is_active_on_draft := True,
                              slug_partner := partner self\<rparr>) of
                    Inl err \<Rightarrow> Inl err
                  | Inr d' \<Rightarrow> Inr (d', t, False))
      | _ \<Rightarrow> Inl MultipleObjectsReturned)"

definition clear_other_slugs :: "nat \<Rightarrow> string \<Rightarrow> db \<Rightarrow> error + db" where
  "clear_other_slugs c t d =
     for_each (\<lambda>other_slug d'. save_url_slug d' (other_slug\<lparr>is_active := False, is_active_on_draft := False\<rparr>))
       (filter (\<lambda>u. (is_active u \<or> is_active_on_draft u) \<and> url_slug u \<noteq> t) (url_slug_history d c)) d"

definition set_active_url_slug_official :: "env \<Rightarrow> int \<Rightarrow> db \<Rightarrow> course \<Rightarrow> string option \<Rightarrow> error + db" where
  "set_active_url_slug_official e now d self s =
     (let d1 = (case draft_version self of
                  None \<Rightarrow> d
                | Some dv \<Rightarrow> delete_url_slugs (\<lambda>u. slug_course u = dv \<and> is_active u) d)
      in case update_or_create_by_text e self s d1 of
           Inl err \<Rightarrow> Inl err
         | Inr (d2, t, created) \<Rightarrow>
             clear_other_slugs (pk self) t
               (if created then set_data_modified_timestamp now self d2 else d2))"

text \<open>
  \<^verbatim>\<open>Course.set_active_url_slug\<close>. It is \<^verbatim>\<open>transaction.atomic\<close>: an error leaves the
  store as it was, so the error result carries no store.
\<close>

definition set_active_url_slug :: "env \<Rightarrow> int \<Rightarrow> db \<Rightarrow> course \<Rightarrow> string option \<Rightarrow> error + db" where
  "set_active_url_slug e now d self s =
     (if truthy s \<and> slug_already_in_use e d self (the s) then Inl (SlugInUse (the s))
      else if draft self then set_active_url_slug_draft e now d self s
      else set_active_url_slug_official e now d self s)"

section \<open>Course runs\<close>

text \<open>\<^verbatim>\<open>CourseRun.enrollment_deadline\<close>: the earlier of \<^verbatim>\<open>end\<close> and \<^verbatim>\<open>enrollment_end\<close>, of those set.\<close>

definition enrollment_deadline :: "course_run \<Rightarrow> int option" where
  "enrollment_deadline r =
     (case (end_date r, enrollment_end r) of
        (None, None) \<Rightarrow> None
      | (Some a, None) \<Rightarrow> Some a
      | (None, Some b) \<Rightarrow> Some b
      | (Some a, Some b) \<Rightarrow> Some (min a b))"

definition has_enrollment_ended :: "int \<Rightarrow> course_run \<Rightarrow> bool" where
  "has_enrollment_ended when r =
     (case enrollment_deadline r of None \<Rightarrow> False | Some deadline \<Rightarrow> deadline < when)"

text \<open>
  \<^verbatim>\<open>CourseRun.could_be_marketable\<close>. For a run of a marketable type the key is parsed,
  and a key that does not parse raises.
\<close>

definition could_be_marketable :: "env \<Rightarrow> course_run \<Rightarrow> error + bool" where
  "could_be_marketable e r =
     (if \<not> type_is_marketable r then Inr False
      else (case key_deprecated e (run_key r) of
              None \<Rightarrow> Inl InvalidKeyError
            | Some True \<Rightarrow> Inr False
            | Some False \<Rightarrow> Inr (\<not> draft r)))"

text \<open>
  The comprehension \<^verbatim>\<open>{run for run in ... if run.could_be_marketable}\<close> of
  \<^verbatim>\<open>unpublish_inactive_runs\<close>: the property is read for every run, and the first that
  raises ends it. The set is iterated in no particular order; the error is the same in each.
\<close>

fun marketable_runs :: "env \<Rightarrow> course_run list \<Rightarrow> error + course_run list" where
  "marketable_runs e [] = Inr []"
| "marketable_runs e (r # rs) =
     (case could_be_marketable e r of
        Inl err \<Rightarrow> Inl err
      | Inr b \<Rightarrow> (case marketable_runs e rs of
                    Inl err \<Rightarrow> Inl err
                  | Inr ms \<Rightarrow> Inr (if b then r # ms else ms)))"

text \<open>
  \<^verbatim>\<open>CourseRun.marketing_url\<close>, as the path that \<^verbatim>\<open>urljoin\<close> appends to the partner's
  \<^verbatim>\<open>marketing_site_url_root\<close> (the root is not in the store), and
  \<^verbatim>\<open>CourseRun.is_marketable\<close>: published, with seats and a marketing url.
\<close>

definition marketing_url :: "course_run \<Rightarrow> string option" where
  "marketing_url r = (if slug r \<noteq> [] \<and> type_is_marketable r then Some (''course/'' @ slug r) else None)"

definition is_marketable :: "env \<Rightarrow> db \<Rightarrow> course_run \<Rightarrow> error + bool" where
  "is_marketable e d r =
     (case could_be_marketable e r of
        Inl err \<Rightarrow> Inl err
      | Inr False \<Rightarrow> Inr False
      | Inr True \<Rightarrow> Inr (status r = Published
                          \<and> (\<exists>s \<in> set (seats d). seat_course_run s = pk r)
                          \<and> marketing_url r \<noteq> None))"

text \<open>
  The flag \<^verbatim>\<open>push_to_marketing\<close> that \<^verbatim>\<open>CourseRun.save\<close> computes before it writes, for
  the default \<^verbatim>\<open>suppress_publication=False\<close>, and the read of \<^verbatim>\<open>previous_obj\<close> through
  the manager of the official rows when the flag is set. The conjunction is evaluated from
  the left. What \<^verbatim>\<open>push_to_marketing_site\<close> then sends to the marketing site is outside
  the store.
\<close>

definition push_to_marketing :: "env \<Rightarrow> db \<Rightarrow> course_run \<Rightarrow> error + bool" where
  "push_to_marketing e d self =
     (case get_pk (courses d) (run_course self) of
        None \<Rightarrow> Inl DoesNotExist
      | Some c \<Rightarrow>
          if partner c \<in> set (marketing_site_partners d) \<and> publish_course_runs_to_marketing_site e then
            (case could_be_marketable e self of
               Inl err \<Rightarrow> Inl err
             | Inr False \<Rightarrow> Inr False
             | Inr True \<Rightarrow>
                 (case find (\<lambda>r. pk r = pk self \<and> \<not> draft r) (course_runs d) of
                    None \<Rightarrow> Inl DoesNotExist
                  | Some previous_obj \<Rightarrow> Inr True))
          else Inr False)"

text \<open>The notifications of \<^verbatim>\<open>emails.py\<close>, by the function called and what it is called with.\<close>

datatype email =
  LegalReviewEmail nat
  | InternalReviewEmail nat
  | ReviewedEmail nat
  | GoLiveEmail nat
  | WatchersEmail nat "int option" course_run_status

definition VERIFIED :: string where "VERIFIED = ''verified''"
definition AUDIT :: string where "AUDIT = ''audit''"
definition PROFESSIONAL :: string where "PROFESSIONAL = ''professional''"
definition EXECUTIVE_EDUCATION :: string where "EXECUTIVE_EDUCATION = ''executive-education''"
definition PAID_EXECUTIVE_EDUCATION :: string where "PAID_EXECUTIVE_EDUCATION = ''paid-executive-education''"
definition PAID_BOOTCAMP :: string where "PAID_BOOTCAMP = ''paid-bootcamp''"

definition ENTITLEMENT_MODES :: "string list" where
  "ENTITLEMENT_MODES = [VERIFIED, PROFESSIONAL, EXECUTIVE_EDUCATION, PAID_EXECUTIVE_EDUCATION, PAID_BOOTCAMP]"

definition REQUIRES_AUDIT_SEAT :: "string list" where
  "REQUIRES_AUDIT_SEAT = [VERIFIED]"

definition EXECUTIVE_EDUCATION_2U :: string where "EXECUTIVE_EDUCATION_2U = ''executive-education-2u''"
definition BOOTCAMP_2U :: string where "BOOTCAMP_2U = ''bootcamp-2u''"

section \<open>Promotion of one row\<close>

text \<open>
  Modelled from the spec: \<^verbatim>\<open>set_official_state\<close> of \<^verbatim>\<open>utils.py\<close>, which \<^verbatim>\<open>models.py\<close>
  imports and which is not among the sources. Section 4.1 of the specification: if the
  draft row has no official counterpart, one is created, copying every scalar and
  non-versioned-relation field from the draft and linking the new row's
  \<^verbatim>\<open>draft_version\<close> to the draft; if it has one, that row's fields are overwritten in
  place and its primary key is kept. The relations to other versioned rows (the parent,
  \<^verbatim>\<open>canonical_course_run\<close>) are not copied: \<open>relations\<close> sets them on the copy, from the
  previous official row when there is one and from the attributes that the caller passes.
  A row that is not a draft is returned as it is.
\<close>

definition set_official_state ::
  "('a draft_model_scheme option \<Rightarrow> 'a draft_model_scheme \<Rightarrow> 'a draft_model_scheme)
     \<Rightarrow> ('a draft_model_scheme) list \<Rightarrow> 'a draft_model_scheme
     \<Rightarrow> ('a draft_model_scheme) list \<times> 'a draft_model_scheme" where
  "set_official_state relations tbl obj =
     (if draft obj then
        (case official_version tbl (pk obj) of
           None \<Rightarrow>
             (let official = relations None
                    (obj\<lparr>pk := new_pk (map pk tbl), draft := False, draft_version := Some (pk obj)\<rparr>)
              in (tbl @ [official], official))
         | Some old \<Rightarrow>
             (let official = relations (Some old)
                    (obj\<lparr>pk := pk old, draft := False, draft_version := Some (pk obj)\<rparr>)
              in (put official tbl, official)))
      else (tbl, obj))"

text \<open>
  The versioned relations of each model. A course keeps the \<^verbatim>\<open>canonical_course_run\<close> of
  its official row (none on creation); a course run keeps the course of its official row
  (the caller re-points it); a seat, an entitlement and a restriction are attached to the
  official parent the caller names.
\<close>

definition course_relations :: "course option \<Rightarrow> course \<Rightarrow> course" where
  "course_relations prev c =
     c\<lparr>canonical_course_run := (case prev of None \<Rightarrow> None | Some old \<Rightarrow> canonical_course_run old)\<rparr>"

definition run_relations :: "course_run option \<Rightarrow> course_run \<Rightarrow> course_run" where
  "run_relations prev r = (case prev of None \<Rightarrow> r | Some old \<Rightarrow> r\<lparr>run_course := run_course old\<rparr>)"

definition seat_relations :: "nat \<Rightarrow> seat option \<Rightarrow> seat \<Rightarrow> seat" where
  "seat_relations official_run prev s = s\<lparr>seat_course_run := official_run\<rparr>"

definition entitlement_relations :: "nat \<Rightarrow> course_entitlement option \<Rightarrow> course_entitlement \<Rightarrow> course_entitlement" where
  "entitlement_relations official_course prev x = x\<lparr>entitlement_course := official_course\<rparr>"

definition restriction_relations :: "nat \<Rightarrow> restricted_course_run option \<Rightarrow> restricted_course_run \<Rightarrow> restricted_course_run" where
  "restriction_relations official_run prev x = x\<lparr>restricted_course_run := official_run\<rparr>"

section \<open>Saving, status changes, publication\<close>

text \<open>\<^verbatim>\<open>Course.set_subdirectory_slug\<close>.\<close>

definition set_subdirectory_slug :: "env \<Rightarrow> int \<Rightarrow> db \<Rightarrow> course \<Rightarrow> error + db" where
  "set_subdirectory_slug e now d self =
     (let is_slug_in_subdirectory_format =
            (case active_url_slug d self of
               None \<Rightarrow> False
             | Some a \<Rightarrow> if a = [] then False else matches_subdirectory_format e a);
          is_exec_ed_course = (course_type self = EXECUTIVE_EDUCATION_2U);
          is_bootcamp_course = (course_type self = BOOTCAMP_2U)
      in if is_exec_ed_course \<and> \<not> subdirectory_slug_format_for_exec_ed_enabled e then Inr d
         else if is_bootcamp_course \<and> \<not> subdirectory_slug_format_for_bootcamp_enabled e then Inr d
         else if \<not> is_slug_in_subdirectory_format
                 \<and> (is_exec_ed_course \<or> is_ocm_course e self \<or> is_bootcamp_course) then
           (case get_slug_for_course e d self of
              (s, err) \<Rightarrow>
                if truthy s then
                  (case set_active_url_slug e now d self s of
                     Inl x \<Rightarrow> Inl x
                   | Inr d1 \<Rightarrow>
                       (case official_version (courses d1) (pk self) of
                          None \<Rightarrow> Inr d1
                        | Some off \<Rightarrow> set_active_url_slug e now d1 off s))
                else Inl (SlugGenerationFailed err))
         else Inr d)"

text \<open>
  The tail of \<^verbatim>\<open>handle_status_change\<close>: the mail of the new status, and for a run with
  a go-live date, reviewed or published, the note to the course watchers, which reads the
  run again from the store.
\<close>

definition status_emails :: "bool \<Rightarrow> (nat \<Rightarrow> email) \<Rightarrow> course_run \<Rightarrow> db \<Rightarrow> email list" where
  "status_emails send_emails email_method self d =
     (if send_emails then
        email_method (pk self) #
        (if go_live_date self \<noteq> None \<and> status self \<in> {Reviewed, Published} then
           (let fresh = (case get_pk (course_runs d) (pk self) of None \<Rightarrow> self | Some r \<Rightarrow> r)
            in [WatchersEmail (run_course fresh) (go_live_date fresh) (status fresh)])
         else [])
      else [])"

text \<open>The sets of \<^verbatim>\<open>unpublish_inactive_runs\<close>: model instances are equal when their keys are.\<close>

fun distinct_by_pk :: "course_run list \<Rightarrow> course_run list" where
  "distinct_by_pk [] = []"
| "distinct_by_pk (r # rs) = r # distinct_by_pk (filter (\<lambda>x. pk x \<noteq> pk r) rs)"

lemma for_each_cong [fundef_cong]:
  "xs = ys \<Longrightarrow> s = t \<Longrightarrow> (\<And>x s'. x \<in> set ys \<Longrightarrow> f x s' = g x s') \<Longrightarrow> for_each f xs s = for_each g ys t"
proof (induction ys arbitrary: xs s t)
  case Nil
  then show ?case by simp
next
  case (Cons y ys)
  then show ?case by (auto split: sum.splits)
qed

text \<open>
  \<^verbatim>\<open>CourseRun.save\<close>, \<^verbatim>\<open>handle_status_change\<close>, \<^verbatim>\<open>publish\<close>,
  \<^verbatim>\<open>Course.unpublish_inactive_runs\<close>, \<^verbatim>\<open>Course.save\<close> and the two
  \<^verbatim>\<open>update_or_create_official_version\<close> call one another. An instance being saved is
  its row as held in memory, with \<open>old\<close> for \<^verbatim>\<open>_old_status\<close> and \<open>end_changed\<close> for
  \<^verbatim>\<open>field_tracker.has_changed('end')\<close>; for a course, \<open>changed\<close> is \<^verbatim>\<open>has_changed\<close>.
  Each result carries the store and the notifications sent, in order.
\<close>

function
  save_run :: "env \<Rightarrow> int \<Rightarrow> bool \<Rightarrow> course_run_status \<Rightarrow> bool \<Rightarrow> course_run \<Rightarrow> db
                \<Rightarrow> error + (db \<times> email list)"
and handle_status_change :: "env \<Rightarrow> int \<Rightarrow> bool \<Rightarrow> course_run_status \<Rightarrow> course_run \<Rightarrow> db
                \<Rightarrow> error + (db \<times> email list)"
and publish :: "env \<Rightarrow> int \<Rightarrow> bool \<Rightarrow> course_run_status \<Rightarrow> course_run \<Rightarrow> db
                \<Rightarrow> error + (db \<times> email list \<times> bool)"
and unpublish_inactive_runs :: "env \<Rightarrow> int \<Rightarrow> course \<Rightarrow> course_run list option \<Rightarrow> db
                \<Rightarrow> error + (db \<times> email list \<times> bool)"
and save_course :: "env \<Rightarrow> int \<Rightarrow> bool \<Rightarrow> course \<Rightarrow> db \<Rightarrow> error + (db \<times> email list)"
and course_update_or_create_official_version :: "env \<Rightarrow> int \<Rightarrow> course \<Rightarrow> course_run \<Rightarrow> db
                \<Rightarrow> error + (db \<times> course \<times> email list)"
and update_or_create_official_version :: "env \<Rightarrow> int \<Rightarrow> course_run \<Rightarrow> db
                \<Rightarrow> error + (db \<times> course_run \<times> email list)"
where
  "save_run e now send_emails old end_changed self d =
     (case push_to_marketing e d self of
        Inl err \<Rightarrow> Inl err
      | Inr push \<Rightarrow>
          (let d1 = d\<lparr>course_runs := put self (course_runs d)\<rparr>;
               d2 = (if end_changed then
                       d1\<lparr>seats := map (\<lambda>s. if seat_course_run s = pk self \<and> seat_type s = VERIFIED
                                             then s\<lparr>upgrade_deadline_override := None\<rparr> else s) (seats d1)\<rparr>
                     else d1)
           in handle_status_change e now send_emails old self d2))"
| "handle_status_change e now send_emails old self d =
     (if old = status self then Inr (d, [])
      else if \<not> draft self then Inr (d, [])
      else if status self = LegalReview then
        (if subdirectory_slug_format_enabled e then
           (case get_pk (courses d) (run_course self) of
              None \<Rightarrow> Inl DoesNotExist
            | Some c \<Rightarrow>
                (case set_subdirectory_slug e now d c of
                   Inl err \<Rightarrow> Inl err
                 | Inr d1 \<Rightarrow> Inr (d1, status_emails send_emails LegalReviewEmail self d1)))
         else Inr (d, status_emails send_emails LegalReviewEmail self d))
      else if status self = InternalReview then
        Inr (d, status_emails send_emails InternalReviewEmail self d)
      else if status self = Reviewed then
        (case update_or_create_official_version e now self d of
           Inl err \<Rightarrow> Inl err
         | Inr (d1, official, log1) \<Rightarrow>
             if go_live_date self \<noteq> None \<and> the (go_live_date self) \<le> now then
               (case publish e now True (status official) official d1 of
                  Inl err \<Rightarrow> Inl err
                | Inr (d2, log2, _) \<Rightarrow> Inr (d2, log1 @ log2))
             else Inr (d1, log1 @ status_emails send_emails ReviewedEmail self d1))
      else if status self = Published then
        Inr (d, status_emails send_emails GoLiveEmail self d)
      else Inr (d, []))"
| "publish e now send_emails old self d =
     (if draft self then Inr (d, [], False)
      else
        (case (case draft_version self of
                 None \<Rightarrow> Inr None
               | Some dv \<Rightarrow> (case get_pk (course_runs d) dv of
                              None \<Rightarrow> Inl DoesNotExist
                            | Some r \<Rightarrow> Inr (Some r))) of
           Inl err \<Rightarrow> Inl err
         | Inr draft_run \<Rightarrow>
        (case save_run e now send_emails old False
                (self\<lparr>announcement := Some now, status := Published\<rparr>) d of
           Inl err \<Rightarrow> Inl err
         | Inr (d1, log1) \<Rightarrow>
        (case (case draft_run of
                 None \<Rightarrow> Inr (d1, [])
               | Some r \<Rightarrow> save_run e now send_emails (status r) False
                             (r\<lparr>announcement := Some now, status := Published\<rparr>) d1) of
           Inl err \<Rightarrow> Inl err
         | Inr (d2, log2) \<Rightarrow>
        (case get_pk (courses d2) (run_course self) of
           None \<Rightarrow> Inl DoesNotExist
         | Some c \<Rightarrow>
        (case unpublish_inactive_runs e now c None d2 of
           Inl err \<Rightarrow> Inl err
         | Inr (d3, log3, _) \<Rightarrow>
        (case (case find (\<lambda>u. url_slug u = slug self \<and> slug_partner u = partner c) (url_slugs d3) of
                 None \<Rightarrow> Inr False
               | Some existing_slug \<Rightarrow>
                   (case get_pk (courses d3) (slug_course existing_slug) of
                      None \<Rightarrow> Inl DoesNotExist
                    | Some owner \<Rightarrow> Inr (uuid owner = uuid c))) of
           Inl err \<Rightarrow> Inl err
         | Inr True \<Rightarrow> Inr (d3, log1 @ log2 @ log3, True)
         | Inr False \<Rightarrow>
             (case create_url_slug d3
                     \<lparr>slug_pk = 0, slug_course = pk c, slug_partner = partner c,
                      url_slug = slug self, is_active = False, is_active_on_draft = False\<rparr> of
                Inl err \<Rightarrow> Inl err
              | Inr d4 \<Rightarrow> Inr (d4, log1 @ log2 @ log3, True)))))))))"
| "unpublish_inactive_runs e now self published_runs d =
     (if partner self \<notin> set (marketing_site_partners d) then Inr (d, [], False)
      else
        (let published = distinct_by_pk
               (case published_runs of
                  None \<Rightarrow> filter (\<lambda>r. run_course r = pk self \<and> status r = Published) (course_runs d)
                | Some rs \<Rightarrow> rs);
             inactive_runs = filter (has_enrollment_ended now) published
         in case marketable_runs e (filter (\<lambda>r. pk r \<notin> set (map pk inactive_runs)) published) of
              Inl err \<Rightarrow> Inl err
            | Inr marketable \<Rightarrow>
            if marketable = [] \<or> inactive_runs = [] then Inr (d, [], False)
            else
              (case for_each
                      (\<lambda>run (d0, log0).
                         case save_run e now True (status run) False (run\<lparr>status := Unpublished\<rparr>) d0 of
                           Inl err \<Rightarrow> Inl err
                         | Inr (d1, log1) \<Rightarrow>
                             (case draft_version run of
                                None \<Rightarrow> Inr (d1, log0 @ log1)
                              | Some dv \<Rightarrow>
                                  (case get_pk (course_runs d1) dv of
                                     None \<Rightarrow> Inl DoesNotExist
                                   | Some dr \<Rightarrow>
                                       (case save_run e now True (status dr) False
                                               (dr\<lparr>status := Unpublished\<rparr>) d1 of
                                          Inl err \<Rightarrow> Inl err
                                        | Inr (d2, log2) \<Rightarrow> Inr (d2, log0 @ log1 @ log2)))))
                      inactive_runs (d, []) of
                 Inl err \<Rightarrow> Inl err
               | Inr (d', log) \<Rightarrow> Inr (d', log, True))))"
| "save_course e now changed self d =
     (let self' = self\<lparr>data_modified_timestamp :=
                         (case data_modified_timestamp self of
                            None \<Rightarrow> Some now
                          | Some t \<Rightarrow> if draft self \<and> changed then Some now else Some t)\<rparr>;
          d1 = d\<lparr>courses := put self' (courses d)\<rparr>
      in for_each
           (\<lambda>course_run (d0, log0).
              case save_run e now True (status course_run) False course_run d0 of
                Inl err \<Rightarrow> Inl err
              | Inr (d2, log2) \<Rightarrow> Inr (d2, log0 @ log2))
           (filter (\<lambda>r. run_course r = pk self) (course_runs d1)) (d1, []))"
| "course_update_or_create_official_version e now self course_run d =
     (case get_pk (courses d) (pk self) of
        None \<Rightarrow> Inl DoesNotExist
      | Some draft_row \<Rightarrow>
          (let creating = (official_version (courses d) (pk self) = None);
               (tbl, official) = set_official_state course_relations (courses d) draft_row;
               d1 = d\<lparr>courses := tbl\<rparr>;
               d2 = fold (\<lambda>entitlement d0.
                            if mode entitlement \<in> set ENTITLEMENT_MODES then
                              d0\<lparr>entitlements :=
                                   fst (set_official_state (entitlement_relations (pk official))
                                          (entitlements d0) entitlement)\<rparr>
                            else d0)
                      (filter (\<lambda>x. entitlement_course x = pk self) (entitlements d1)) d1
           in case set_active_url_slug e now d2 official (active_url_slug d2 self) of
                Inl err \<Rightarrow> Inl err
              | Inr d3 \<Rightarrow>
                  if creating then
                    (let refreshed = (case get_pk (courses d3) (pk official) of
                                        None \<Rightarrow> official | Some c \<Rightarrow> c);
                         official' = refreshed\<lparr>canonical_course_run := Some (pk course_run)\<rparr>
                     in case save_course e now (canonical_course_run refreshed \<noteq> Some (pk course_run))
                               official' d3 of
                          Inl err \<Rightarrow> Inl err
                        | Inr (d4, log4) \<Rightarrow>
                            (case save_course e now (canonical_course_run self \<noteq> draft_version course_run)
                                    (self\<lparr>canonical_course_run := draft_version course_run\<rparr>) d4 of
                               Inl err \<Rightarrow> Inl err
                             | Inr (d5, log5) \<Rightarrow> Inr (d5, official', log4 @ log5)))
                  else Inr (d3, official, [])))"
| "update_or_create_official_version e now self d =
     (case get_pk (course_runs d) (pk self) of
        None \<Rightarrow> Inl DoesNotExist
      | Some draft_row \<Rightarrow>
          (let (tbl, official) = set_official_state run_relations (course_runs d) draft_row;
               d1 = d\<lparr>course_runs := tbl\<rparr>;
               d2 = fold (\<lambda>seat d0.
                            d0\<lparr>seats := fst (set_official_state (seat_relations (pk official))
                                               (seats d0) seat)\<rparr>)
                      (filter (\<lambda>s. seat_course_run s = pk self) (seats d1)) d1;
               d3 = (case find (\<lambda>x. restricted_course_run x = pk self) (restricted_runs d2) of
                       None \<Rightarrow> d2
                     | Some restricted_run \<Rightarrow>
                         d2\<lparr>restricted_runs :=
                              fst (set_official_state (restriction_relations (pk official))
                                     (restricted_runs d2) restricted_run)\<rparr>)
           in case get_pk (courses d3) (run_course self) of
                None \<Rightarrow> Inl DoesNotExist
              | Some c \<Rightarrow>
                  (case course_update_or_create_official_version e now c official d3 of
                     Inl err \<Rightarrow> Inl err
                   | Inr (d4, official_course, log4) \<Rightarrow>
                       (let official' = official\<lparr>slug := slug self, run_course := pk official_course\<rparr>
                        in case save_run e now True (status official') False official' d4 of
                             Inl err \<Rightarrow> Inl err
                           | Inr (d5, log5) \<Rightarrow> Inr (d5, official', log4 @ log5)))))"
  by pat_completeness auto

termination
  by (relation "measure (\<lambda>x. case x of
        Inl (Inl (e, now, send_emails, old, end_changed, self, d)) \<Rightarrow>
          (if draft self \<and> status self = Reviewed \<and> old \<noteq> Reviewed then 10 else 2)
      | Inl (Inr (Inl (e, now, send_emails, old, self, d))) \<Rightarrow>
          (if draft self \<and> status self = Reviewed \<and> old \<noteq> Reviewed then 9 else 1)
      | Inl (Inr (Inr _)) \<Rightarrow> 5
      | Inr (Inl (Inl _)) \<Rightarrow> 3
      | Inr (Inl (Inr _)) \<Rightarrow> 3
      | Inr (Inr (Inl _)) \<Rightarrow> 4
      | Inr (Inr (Inr _)) \<Rightarrow> 6)")
     auto

declare save_run.simps [simp del] handle_status_change.simps [simp del] publish.simps [simp del]
  unpublish_inactive_runs.simps [simp del] save_course.simps [simp del]
  course_update_or_create_official_version.simps [simp del]
  update_or_create_official_version.simps [simp del]

section \<open>Seats\<close>

text \<open>
  \<^verbatim>\<open>CourseRun.validate_seat_upgrade\<close>. Seat types are their slugs; \<open>seat_types\<close> are the
  types of the tracks of the requested run type.
\<close>

definition validate_seat_upgrade :: "course_run \<Rightarrow> string list \<Rightarrow> db \<Rightarrow> error option" where
  "validate_seat_upgrade self seat_types d =
     (case official_version (course_runs d) (pk self) of
        None \<Rightarrow> None
      | Some official \<Rightarrow>
          (let old_types = map seat_type (filter (\<lambda>s. seat_course_run s = pk official) (seats d));
               new_types = (if \<exists>t \<in> set seat_types. t \<in> set REQUIRES_AUDIT_SEAT
                            then AUDIT # seat_types else seat_types)
           in if \<exists>t \<in> set old_types. t \<notin> set new_types then Some SeatTypeSwitch else None))"

definition get_seat_default_upgrade_deadline :: "env \<Rightarrow> course_run \<Rightarrow> string \<Rightarrow> int option" where
  "get_seat_default_upgrade_deadline e self t =
     (if t \<noteq> VERIFIED then None else upgrade_deadline_for e (end_date self))"

text \<open>
  \<^verbatim>\<open>Seat.price\<close> is a \<^verbatim>\<open>DecimalField\<close> with \<^verbatim>\<open>max_digits = 10\<close> and
  \<^verbatim>\<open>decimal_places = 2\<close>. A price is kept as its number of hundredths; writing a row whose
  price needs more than ten digits raises \<^verbatim>\<open>decimal.InvalidOperation\<close>.
\<close>

definition price_fits :: "int \<Rightarrow> bool" where
  "price_fits p = (\<bar>p\<bar> < 10 ^ 10)"

text \<open>
  \<^verbatim>\<open>update_or_create_seat_helper\<close>: \<^verbatim>\<open>Seat.everything.update_or_create\<close> on the draft
  seat of this run and type. A seat created takes the field defaults for what
  \<^verbatim>\<open>defaults\<close> leaves out.
\<close>

definition update_or_create_seat_helper ::
  "env \<Rightarrow> course_run \<Rightarrow> string \<Rightarrow> (string \<times> int) list \<Rightarrow> int option \<Rightarrow> db \<Rightarrow> error + db" where
  "update_or_create_seat_helper e self t prices upgrade_deadline_override_arg d =
     (let default_deadline = get_seat_default_upgrade_deadline e self t;
          set_defaults = (\<lambda>s.
            (let s1 = s\<lparr>upgrade_deadline := default_deadline\<rparr>;
                 s2 = (case map_of prices t of None \<Rightarrow> s1 | Some p \<Rightarrow> s1\<lparr>price := p\<rparr>)
             in if t = VERIFIED then s2\<lparr>upgrade_deadline_override := upgrade_deadline_override_arg\<rparr>
                else s2))
      in case filter (\<lambda>s. seat_course_run s = pk self \<and> seat_type s = t \<and> draft s) (seats d) of
           [] \<Rightarrow>
             (let seat = set_defaults \<lparr>pk = new_pk (map pk (seats d)), draft = True, draft_version = None,
                            seat_course_run = pk self, seat_type = t, price = 0, upgrade_deadline = None,
                            upgrade_deadline_override = None, seat_fields = []\<rparr>
              in if price_fits (price seat) then Inr (d\<lparr>seats := seats d @ [seat]\<rparr>)
                 else Inl InvalidOperation)
         | [s] \<Rightarrow>
             (let seat = set_defaults s
              in if price_fits (price seat) then Inr (d\<lparr>seats := put seat (seats d)\<rparr>)
                 else Inl InvalidOperation)
         | _ \<Rightarrow> Inl MultipleObjectsReturned)"

text \<open>
  \<^verbatim>\<open>CourseRun.update_or_create_seats\<close>. \<open>tracks\<close> is the seat type of each track of the
  run type, \<open>None\<close> for a track that has none. Deleting a draft seat sets the
  \<^verbatim>\<open>draft_version\<close> of its official seat to null. The closing \<^verbatim>\<open>self.seats.set(seats)\<close>
  re-attaches seats that are attached already.
\<close>

definition delete_seats :: "(seat \<Rightarrow> bool) \<Rightarrow> db \<Rightarrow> db" where
  "delete_seats P d =
     (let gone = map pk (filter P (seats d))
      in d\<lparr>seats := map (\<lambda>s. if draft_version s \<in> Some ` set gone then s\<lparr>draft_version := None\<rparr> else s)
                      (filter (\<lambda>s. \<not> P s) (seats d))\<rparr>)"

definition update_or_create_seats ::
  "env \<Rightarrow> course_run \<Rightarrow> string option list \<Rightarrow> (string \<times> int) list \<Rightarrow> int option \<Rightarrow> db \<Rightarrow> error + db" where
  "update_or_create_seats e self tracks prices upgrade_deadline_override_arg d =
     (let seat_types = remdups (map the (filter (\<lambda>t. t \<noteq> None) tracks))
      in case validate_seat_upgrade self seat_types d of
           Some err \<Rightarrow> Inl err
         | None \<Rightarrow>
             (case for_each (\<lambda>t d0. update_or_create_seat_helper e self t prices upgrade_deadline_override_arg d0)
                     seat_types d of
                Inl err \<Rightarrow> Inl err
              | Inr d1 \<Rightarrow> Inr (delete_seats (\<lambda>s. seat_course_run s = pk self \<and> seat_type s \<notin> set seat_types) d1)))"

text \<open>The rows that a sweep unpublishes, as one pass over the table.\<close>

definition unpublish_rows :: "nat set \<Rightarrow> course_run list \<Rightarrow> course_run list" where
  "unpublish_rows A rows = map (\<lambda>r. if pk r \<in> A then r\<lparr>status := Unpublished\<rparr> else r) rows"

section \<open>Properties of the slug registry, as predicates\<close>

text \<open>
  Two course rows are the same logical course when they are one row or one is the
  \<^verbatim>\<open>draft_version\<close> of the other.
\<close>

definition same_logical_course :: "db \<Rightarrow> nat \<Rightarrow> nat \<Rightarrow> bool" where
  "same_logical_course d a b =
     (a = b \<or> (\<exists>c \<in> set (courses d). (pk c = a \<and> draft_version c = Some b)
                                      \<or> (pk c = b \<and> draft_version c = Some a)))"

text \<open>No slug text is held by the records of two different logical courses.\<close>

definition slug_texts_unique :: "db \<Rightarrow> bool" where
  "slug_texts_unique d =
     (\<forall>u \<in> set (url_slugs d). \<forall>v \<in> set (url_slugs d).
        url_slug u = url_slug v \<longrightarrow> same_logical_course d (slug_course u) (slug_course v))"

text \<open>
  The conflict condition in the words of the specification: the text is owned, that is
  flagged active or active-on-draft, by a different logical course.
\<close>

definition spec_owned_by_other_course :: "db \<Rightarrow> course \<Rightarrow> string \<Rightarrow> bool" where
  "spec_owned_by_other_course d self s =
     (\<exists>u \<in> set (url_slugs d). url_slug u = s \<and> (is_active u \<or> is_active_on_draft u)
         \<and> \<not> same_logical_course d (slug_course u) (pk self))"

text \<open>Where a slug record of a later store comes from: an earlier record, or the activation.\<close>

definition slug_origin :: "db \<Rightarrow> string \<Rightarrow> nat \<Rightarrow> course_url_slug \<Rightarrow> bool" where
  "slug_origin d0 s c v =
     ((\<exists>u \<in> set (url_slugs d0). url_slug v = url_slug u \<and> slug_course v = slug_course u)
      \<or> (url_slug v = s \<and> slug_course v = c))"

definition links :: "db \<Rightarrow> (nat \<times> nat option) list" where
  "links d = map (\<lambda>c. (pk c, draft_version c)) (courses d)"

text \<open>At most one record of a course is flagged active, or active on the draft.\<close>

definition at_most_one_active :: "db \<Rightarrow> nat \<Rightarrow> bool" where
  "at_most_one_active d c =
     (\<forall>u \<in> set (url_slug_history d c). \<forall>v \<in> set (url_slug_history d c).
        is_active u \<and> is_active v \<longrightarrow> u = v)"

definition at_most_one_active_on_draft :: "db \<Rightarrow> nat \<Rightarrow> bool" where
  "at_most_one_active_on_draft d c =
     (\<forall>u \<in> set (url_slug_history d c). \<forall>v \<in> set (url_slug_history d c).
        is_active_on_draft u \<and> is_active_on_draft v \<longrightarrow> u = v)"

section \<open>Example stores\<close>

text \<open>
  The environment of the examples folds the letters A to Z only, parses every key, and has
  the marketing switch on.
\<close>

definition ascii_lower_char :: "char \<Rightarrow> char" where
  "ascii_lower_char c =
     (case map_of (zip ''ABCDEFGHIJKLMNOPQRSTUVWXYZ'' ''abcdefghijklmnopqrstuvwxyz'') c of
        Some l \<Rightarrow> l
      | None \<Rightarrow> c)"

definition ascii_lower :: "string \<Rightarrow> string" where
  "ascii_lower s = map ascii_lower_char s"

definition ascii_iexact :: "string \<Rightarrow> string \<Rightarrow> bool" where
  "ascii_iexact a b = (ascii_lower a = ascii_lower b)"

definition example_env :: env where
  "example_env =
     \<lparr>auto_slug = (\<lambda>_ c. key c), key_deprecated = (\<lambda>_. Some False),
      str_lower = ascii_lower, db_iexact = ascii_iexact, publish_course_runs_to_marketing_site = True,
      upgrade_deadline_for = (\<lambda>t. t),
      subdirectory_slug_format_enabled = False,
      subdirectory_slug_format_for_exec_ed_enabled = False,
      subdirectory_slug_format_for_bootcamp_enabled = False,
      matches_subdirectory_format = (\<lambda>_. True), is_ocm_course = (\<lambda>_. True),
      get_slug_for_course = (\<lambda>_ _. (None, ''disabled''))\<rparr>"

definition mk_course :: "nat \<Rightarrow> bool \<Rightarrow> nat option \<Rightarrow> string \<Rightarrow> course" where
  "mk_course p dr dv k =
     \<lparr>pk = p, draft = dr, draft_version = dv, partner = 1, uuid = k, key = k,
      course_type = ''verified-audit'', canonical_course_run = None,
      data_modified_timestamp = None, course_fields = []\<rparr>"

definition mk_slug :: "nat \<Rightarrow> nat \<Rightarrow> string \<Rightarrow> bool \<Rightarrow> bool \<Rightarrow> course_url_slug" where
  "mk_slug p c t a ad =
     \<lparr>slug_pk = p, slug_course = c, slug_partner = 1, url_slug = t, is_active = a,
      is_active_on_draft = ad\<rparr>"

definition empty_db :: db where
  "empty_db = \<lparr>courses = [], course_runs = [], seats = [], entitlements = [],
                restricted_runs = [], url_slugs = [], marketing_site_partners = [1]\<rparr>"

text \<open>
  A draft course 1 with its official row 2; the official row carries the slug
  \<open>intro101\<close>, active and active on the draft.
\<close>

definition paired_db :: db where
  "paired_db = empty_db
     \<lparr>courses := [mk_course 1 True None ''course-v1:X+1'', mk_course 2 False (Some 1) ''course-v1:X+1''],
      url_slugs := [mk_slug 1 2 ''intro101'' True True]\<rparr>"

text \<open>
  Two unrelated official courses 1 and 2; course 2 keeps \<open>python-basics\<close> in its
  history only, flagged neither active nor active on the draft.
\<close>

definition history_db :: db where
  "history_db = empty_db
     \<lparr>courses := [mk_course 1 False None ''course-v1:X+1'', mk_course 2 False None ''course-v1:Y+2''],
      url_slugs := [mk_slug 1 2 ''python-basics'' False False, mk_slug 2 2 ''python'' True True]\<rparr>"

text \<open>A draft course 1 that has no official row and no slug record.\<close>

definition lone_draft_db :: db where
  "lone_draft_db = empty_db\<lparr>courses := [mk_course 1 True None ''course-v1:X+1'']\<rparr>"

text \<open>The same draft course with \<open>intro\<close> in its own history, not flagged.\<close>

definition draft_history_db :: db where
  "draft_history_db = lone_draft_db\<lparr>url_slugs := [mk_slug 1 1 ''intro'' False False]\<rparr>"

text \<open>The body of the loop of \<^verbatim>\<open>unpublish_inactive_runs\<close>, lines 1939 to 1944.\<close>

definition sweep_body :: "env \<Rightarrow> int \<Rightarrow> course_run \<Rightarrow> db \<times> email list \<Rightarrow> error + (db \<times> email list)" where
  "sweep_body e now = (\<lambda>run (d0, log0).
                         case save_run e now True (status run) False (run\<lparr>status := Unpublished\<rparr>) d0 of
                           Inl err \<Rightarrow> Inl err
                         | Inr (d1, log1) \<Rightarrow>
                             (case draft_version run of
                                None \<Rightarrow> Inr (d1, log0 @ log1)
                              | Some dv \<Rightarrow>
                                  (case get_pk (course_runs d1) dv of
                                     None \<Rightarrow> Inl DoesNotExist
                                   | Some dr \<Rightarrow>
                                       (case save_run e now True (status dr) False
                                               (dr\<lparr>status := Unpublished\<rparr>) d1 of
                                          Inl err \<Rightarrow> Inl err
                                        | Inr (d2, log2) \<Rightarrow> Inr (d2, log0 @ log1 @ log2)))))"

definition mk_run :: "nat \<Rightarrow> bool \<Rightarrow> nat option \<Rightarrow> nat \<Rightarrow> course_run_status \<Rightarrow> int option \<Rightarrow> int option \<Rightarrow> course_run" where
  "mk_run p dr dv c st en gl =
     \<lparr>pk = p, draft = dr, draft_version = dv, run_course = c, run_key = ''course-v1:X+1+2026'',
      status = st, end_date = en, enrollment_end = None, go_live_date = gl, announcement = None,
      slug = ''x-1-2026'', type_is_marketable = True, run_fields = []\<rparr>"

text \<open>
  An official course 1 with two published official runs: run 1 ended at time 10 and has the
  draft row 3, run 2 has no end.
\<close>

definition two_runs_db :: db where
  "two_runs_db = empty_db
     \<lparr>courses := [mk_course 1 False None ''course-v1:X+1''],
      course_runs := [mk_run 1 False (Some 3) 1 Published (Some 10) None,
                      mk_run 2 False None 1 Published None None,
                      mk_run 3 True None 1 Published (Some 10) None]\<rparr>"

text \<open>The same course with run 1 only.\<close>

definition one_run_db :: db where
  "one_run_db = two_runs_db\<lparr>course_runs := [mk_run 1 False (Some 3) 1 Published (Some 10) None,
                                               mk_run 3 True None 1 Published (Some 10) None]\<rparr>"

text \<open>
  An official course 1 with two published official runs: run 1 ended at time 10 and has a
  verified seat, run 2 has no end and no seat.
\<close>

definition floor_db :: db where
  "floor_db = empty_db
     \<lparr>courses := [mk_course 1 False None ''course-v1:X+1''],
      course_runs := [mk_run 1 False None 1 Published (Some 10) None,
                      (mk_run 2 False None 1 Published None None)
                        \<lparr>run_key := ''course-v1:X+1+2027'', slug := ''x-1-2027''\<rparr>],
      seats := [\<lparr>pk = 1, draft = False, draft_version = None, seat_course_run = 1,
                  seat_type = ''verified'', price = 4900, upgrade_deadline = None,
                  upgrade_deadline_override = None, seat_fields = []\<rparr>]\<rparr>"

definition mk_seat :: "nat \<Rightarrow> bool \<Rightarrow> nat option \<Rightarrow> nat \<Rightarrow> string \<Rightarrow> int \<Rightarrow> seat" where
  "mk_seat p dr dv r t pr =
     \<lparr>pk = p, draft = dr, draft_version = dv, seat_course_run = r, seat_type = t, price = pr,
      upgrade_deadline = None, upgrade_deadline_override = None, seat_fields = []\<rparr>"

text \<open>
  The runs of \<open>two_runs_db\<close> with seats: the official run 1 has a verified and an audit
  seat, promoted from the seats of its draft run 3.
\<close>

definition seats_db :: db where
  "seats_db = two_runs_db
     \<lparr>seats := [mk_seat 1 True None 3 ''verified'' 4900, mk_seat 2 True None 3 ''audit'' 0,
                 mk_seat 3 False (Some 1) 1 ''verified'' 4900, mk_seat 4 False (Some 2) 1 ''audit'' 0]\<rparr>"

section \<open>The steps of a promotion\<close>

text \<open>
  A relation setter is plain when it leaves the three fields of the mixin alone. All five
  of the model are.
\<close>

definition plain :: "('a draft_model_scheme option \<Rightarrow> 'a draft_model_scheme \<Rightarrow> 'a draft_model_scheme) \<Rightarrow> bool" where
  "plain rel = (\<forall>prev x. pk (rel prev x) = pk x \<and> draft (rel prev x) = draft x
                          \<and> draft_version (rel prev x) = draft_version x)"

text \<open>The loops over seats and entitlements, on the table alone.\<close>

definition promote_all ::
  "('a draft_model_scheme option \<Rightarrow> 'a draft_model_scheme \<Rightarrow> 'a draft_model_scheme)
     \<Rightarrow> ('a draft_model_scheme) list \<Rightarrow> ('a draft_model_scheme) list \<Rightarrow> ('a draft_model_scheme) list" where
  "promote_all rel xs tbl = fold (\<lambda>obj t. fst (set_official_state rel t obj)) xs tbl"

text \<open>\<^verbatim>\<open>Course.update_data_modified_timestamp\<close>, as \<open>save_course\<close> applies it to the row.\<close>

definition stamp :: "int \<Rightarrow> bool \<Rightarrow> course \<Rightarrow> course" where
  "stamp now changed self =
     self\<lparr>data_modified_timestamp :=
            (case data_modified_timestamp self of
               None \<Rightarrow> Some now
             | Some t \<Rightarrow> if draft self \<and> changed then Some now else Some t)\<rparr>"

text \<open>The tables that no operation of the slug registry writes.\<close>

definition rest :: "db \<Rightarrow> course_run list \<times> seat list \<times> course_entitlement list \<times> restricted_course_run list \<times> nat list" where
  "rest d = (course_runs d, seats d, entitlements d, restricted_runs d, marketing_site_partners d)"

text \<open>
  The store of a promotion when it comes to the slug: the official run, the seats, the
  restriction, the official course and the entitlements are written.
\<close>

definition promotion_stage ::
  "db \<Rightarrow> nat \<Rightarrow> nat \<Rightarrow> course_run list \<Rightarrow> course_run \<Rightarrow> course list \<Rightarrow> course \<Rightarrow> db" where
  "promotion_stage d run_pk course_pk tblR offR tblC offC =
     d\<lparr>course_runs := tblR,
       seats := promote_all (seat_relations (pk offR))
                  (filter (\<lambda>s. seat_course_run s = run_pk) (seats d)) (seats d),
       restricted_runs :=
         (case find (\<lambda>x. restricted_course_run x = run_pk) (restricted_runs d) of
            None \<Rightarrow> restricted_runs d
          | Some restricted_run \<Rightarrow>
              fst (set_official_state (restriction_relations (pk offR))
                     (restricted_runs d) restricted_run)),
       courses := tblC,
       entitlements := promote_all (entitlement_relations (pk offC))
                     (filter (\<lambda>x. mode x \<in> set ENTITLEMENT_MODES)
                        (filter (\<lambda>x. entitlement_course x = course_pk) (entitlements d)))
                     (entitlements d)\<rparr>"

text \<open>The two saves that end the first promotion of a course.\<close>

definition first_promotion_courses :: "int \<Rightarrow> course \<Rightarrow> course_run \<Rightarrow> course \<Rightarrow> course list \<Rightarrow> course list" where
  "first_promotion_courses now c offR refreshed cs =
     put (stamp now (canonical_course_run c \<noteq> draft_version offR)
            (c\<lparr>canonical_course_run := draft_version offR\<rparr>))
       (put (stamp now (canonical_course_run refreshed \<noteq> Some (pk offR))
               (refreshed\<lparr>canonical_course_run := Some (pk offR)\<rparr>))
          cs)"

section \<open>Example stores of the promotion\<close>

definition mk_entitlement :: "nat \<Rightarrow> bool \<Rightarrow> nat option \<Rightarrow> nat \<Rightarrow> string \<Rightarrow> course_entitlement" where
  "mk_entitlement p dr dv c m =
     \<lparr>pk = p, draft = dr, draft_version = dv, entitlement_course = c, mode = m, entitlement_fields = []\<rparr>"

text \<open>
  A draft course 1 with the slug \<open>intro101\<close>, stamped at time 5, and its draft run 1 in
  review, with a verified and an audit seat, a verified and an audit entitlement of the
  course, and a restriction record. Nothing has an official row.
\<close>

definition review_db :: db where
  "review_db = empty_db
     \<lparr>courses := [(mk_course 1 True None ''course-v1:X+1'')
                     \<lparr>canonical_course_run := Some 1, data_modified_timestamp := Some 5\<rparr>],
      course_runs := [mk_run 1 True None 1 Reviewed None None],
      seats := [mk_seat 1 True None 1 ''verified'' 4900, mk_seat 2 True None 1 ''audit'' 0],
      entitlements := [mk_entitlement 1 True None 1 ''verified'', mk_entitlement 2 True None 1 ''audit''],
      restricted_runs := [\<lparr>pk = 1, draft = True, draft_version = None, restricted_course_run = 1,
                            restriction_type = Some ''custom-b2b-enterprise''\<rparr>],
      url_slugs := [mk_slug 1 1 ''intro101'' True False]\<rparr>"

text \<open>The same store after the promotion of run 1 at time 100.\<close>

definition promoted_db :: db where
  "promoted_db = review_db
     \<lparr>courses := [(mk_course 1 True None ''course-v1:X+1'')
                     \<lparr>canonical_course_run := Some 1, data_modified_timestamp := Some 5\<rparr>,
                  (mk_course 2 False (Some 1) ''course-v1:X+1'')
                     \<lparr>canonical_course_run := Some 2, data_modified_timestamp := Some 100\<rparr>],
      course_runs := [mk_run 1 True None 1 Reviewed None None, mk_run 2 False (Some 1) 2 Reviewed None None],
      seats := [mk_seat 1 True None 1 ''verified'' 4900, mk_seat 2 True None 1 ''audit'' 0,
                mk_seat 3 False (Some 1) 2 ''verified'' 4900, mk_seat 4 False (Some 2) 2 ''audit'' 0],
      entitlements := [mk_entitlement 1 True None 1 ''verified'', mk_entitlement 2 True None 1 ''audit'',
                       mk_entitlement 3 False (Some 1) 2 ''verified''],
      restricted_runs := [\<lparr>pk = 1, draft = True, draft_version = None, restricted_course_run = 1,
                            restriction_type = Some ''custom-b2b-enterprise''\<rparr>,
                          \<lparr>pk = 2, draft = False, draft_version = Some 1, restricted_course_run = 2,
                            restriction_type = Some ''custom-b2b-enterprise''\<rparr>],
      url_slugs := [mk_slug 1 2 ''intro101'' True True]\<rparr>"

section \<open>Lemmas on lists, loops and the slug field\<close>

lemma ascii_lower_char_idem: "ascii_lower_char (ascii_lower_char c) = ascii_lower_char c"
  by (simp add: ascii_lower_char_def split: option.splits if_splits)

lemma ascii_lower_idem: "ascii_lower (ascii_lower s) = ascii_lower s"
  by (simp add: ascii_lower_def ascii_lower_char_idem)

lemma ascii_iexact_lower: "ascii_iexact a (ascii_lower a)"
  by (simp add: ascii_iexact_def ascii_lower_idem)

lemma find_SomeD: "find P xs = Some x \<Longrightarrow> x \<in> set xs \<and> P x"
  by (induction xs) (auto split: if_splits)

lemma find_None_all: "(find P xs = None) = (\<forall>x \<in> set xs. \<not> P x)"
  by (auto simp: find_None_iff)

lemma for_each_Inl: "for_each f xs s = Inl err \<Longrightarrow> \<exists>x \<in> set xs. \<exists>s'. f x s' = Inl err"
  by (induction xs arbitrary: s) (auto split: sum.splits)

lemma new_pk_fresh: "p \<in> set ps \<Longrightarrow> p < new_pk ps"
  by (induction ps) (auto simp: new_pk_def)

subsection \<open>errors\<close>

lemma check_url_slug_err: "check_url_slug d u = Some err \<Longrightarrow> err \<in> {DoesNotExist, PartnerMismatch, UniqueViolation}"
  by (auto simp: check_url_slug_def split: option.splits if_splits)

lemma save_url_slug_err: "save_url_slug d u = Inl err \<Longrightarrow> err \<in> {DoesNotExist, PartnerMismatch, UniqueViolation}"
  using check_url_slug_err by (auto simp: save_url_slug_def split: option.splits)

lemma create_url_slug_err: "create_url_slug d u = Inl err \<Longrightarrow> err \<in> {DoesNotExist, PartnerMismatch, UniqueViolation}"
  using check_url_slug_err by (auto simp: create_url_slug_def Let_def split: option.splits)

lemma for_each_save_err:
  "for_each (\<lambda>x d'. save_url_slug d' (g x)) xs d = Inl err \<Longrightarrow> err \<in> {DoesNotExist, PartnerMismatch, UniqueViolation}"
  by (drule for_each_Inl) (auto dest: save_url_slug_err)

lemma update_or_create_active_err:
  "update_or_create_active e self s d = Inl err \<Longrightarrow> err \<in> {DoesNotExist, PartnerMismatch, UniqueViolation, MultipleObjectsReturned}"
  by (auto simp: update_or_create_active_def split: list.splits dest: save_url_slug_err create_url_slug_err)

lemma update_or_create_by_text_err:
  "update_or_create_by_text e self s d = Inl err \<Longrightarrow> err \<in> {DoesNotExist, PartnerMismatch, UniqueViolation, MultipleObjectsReturned}"
  by (auto simp: update_or_create_by_text_def Let_def split: list.splits sum.splits dest: save_url_slug_err create_url_slug_err)

lemma set_active_url_slug_draft_err:
  "set_active_url_slug_draft e now d self s = Inl err \<Longrightarrow> err \<in> {DoesNotExist, PartnerMismatch, UniqueViolation, MultipleObjectsReturned}"
  by (auto simp: set_active_url_slug_draft_def Let_def mark_official_entries_def
      split: option.splits sum.splits if_splits
      dest!: for_each_save_err update_or_create_active_err)

lemma set_active_url_slug_official_err:
  "set_active_url_slug_official e now d self s = Inl err \<Longrightarrow> err \<in> {DoesNotExist, PartnerMismatch, UniqueViolation, MultipleObjectsReturned}"
  by (auto simp: set_active_url_slug_official_def Let_def clear_other_slugs_def
      split: option.splits sum.splits if_splits prod.splits
      dest!: for_each_save_err update_or_create_by_text_err)

lemma set_active_url_slug_in_use_iff:
  "(\<exists>t. set_active_url_slug e now d self s = Inl (SlugInUse t)) \<longleftrightarrow> truthy s \<and> slug_already_in_use e d self (the s)"
  by (auto simp: set_active_url_slug_def dest: set_active_url_slug_draft_err set_active_url_slug_official_err)

subsection \<open>shape of the primitive writes\<close>

lemma save_url_slug_Inr:
  "save_url_slug d u = Inr d' \<Longrightarrow>
     d' = d\<lparr>url_slugs := map (\<lambda>v. if slug_pk v = slug_pk u then u else v) (url_slugs d)\<rparr>"
  by (auto simp: save_url_slug_def split: option.splits)

lemma create_url_slug_Inr:
  "create_url_slug d u = Inr d' \<Longrightarrow>
     d' = d\<lparr>url_slugs := url_slugs d @ [u\<lparr>slug_pk := new_pk (map slug_pk (url_slugs d))\<rparr>]\<rparr>"
  by (auto simp: create_url_slug_def Let_def split: option.splits)

lemma for_each_save_courses:
  "for_each (\<lambda>x d'. save_url_slug d' (g x)) xs d = Inr d' \<Longrightarrow> courses d' = courses d"
  by (induction xs arbitrary: d) (auto split: sum.splits dest!: save_url_slug_Inr)

lemma links_set_data_modified_timestamp [simp]:
  "links (set_data_modified_timestamp now self d) = links d"
  by (simp add: links_def set_data_modified_timestamp_def comp_def if_distrib cong: if_cong)

lemma url_slugs_set_data_modified_timestamp [simp]:
  "url_slugs (set_data_modified_timestamp now self d) = url_slugs d"
  by (simp add: set_data_modified_timestamp_def)

lemma url_slug_history_set_data_modified_timestamp [simp]:
  "url_slug_history (set_data_modified_timestamp now self d) c = url_slug_history d c"
  by (simp add: url_slug_history_def)

lemma links_delete_url_slugs [simp]: "links (delete_url_slugs P d) = links d"
  by (simp add: links_def delete_url_slugs_def)

lemma url_slugs_delete_url_slugs [simp]:
  "url_slugs (delete_url_slugs P d) = filter (\<lambda>u. \<not> P u) (url_slugs d)"
  by (simp add: delete_url_slugs_def)

lemma same_logical_course_links:
  "links d' = links d \<Longrightarrow> same_logical_course d' a b = same_logical_course d a b"
proof -
  assume l: "links d' = links d"
  have "set (links d') = set (links d)" using l by simp
  then have "(\<lambda>c. (pk c, draft_version c)) ` set (courses d') = (\<lambda>c. (pk c, draft_version c)) ` set (courses d)"
    by (simp add: links_def)
  then have "\<And>x y. (\<exists>c \<in> set (courses d'). pk c = x \<and> draft_version c = y) = (\<exists>c \<in> set (courses d). pk c = x \<and> draft_version c = y)"
    by (auto simp: image_iff set_eq_iff) (metis+)
  then show ?thesis
    by (auto simp: same_logical_course_def)
qed

subsection \<open>origin of records\<close>

lemma slug_origin_old: "u \<in> set (url_slugs d0) \<Longrightarrow> url_slug v = url_slug u \<Longrightarrow> slug_course v = slug_course u \<Longrightarrow> slug_origin d0 s c v"
  by (auto simp: slug_origin_def)

lemma slug_origin_new: "url_slug v = s \<Longrightarrow> slug_course v = c \<Longrightarrow> slug_origin d0 s c v"
  by (auto simp: slug_origin_def)

lemma slug_origin_cong: "url_slug v = url_slug w \<Longrightarrow> slug_course v = slug_course w \<Longrightarrow> slug_origin d0 s c v = slug_origin d0 s c w"
  by (auto simp: slug_origin_def)

lemma save_url_slug_origin:
  assumes "save_url_slug d1 u = Inr d2" and "slug_origin d0 s c u"
    and "\<forall>v \<in> set (url_slugs d1). slug_origin d0 s c v"
  shows "\<forall>v \<in> set (url_slugs d2). slug_origin d0 s c v"
  using assms by (auto dest!: save_url_slug_Inr)

lemma create_url_slug_origin:
  assumes "create_url_slug d1 u = Inr d2" and "slug_origin d0 s c u"
    and "\<forall>v \<in> set (url_slugs d1). slug_origin d0 s c v"
  shows "\<forall>v \<in> set (url_slugs d2). slug_origin d0 s c v"
proof -
  have "slug_origin d0 s c (u\<lparr>slug_pk := new_pk (map slug_pk (url_slugs d1))\<rparr>)"
    using assms(2) by (simp add: slug_origin_def)
  then show ?thesis
    using assms(1,3) by (auto dest!: create_url_slug_Inr)
qed

lemma for_each_save_origin:
  assumes "for_each (\<lambda>x d'. save_url_slug d' (g x)) xs d1 = Inr d2"
    and "\<forall>x \<in> set xs. slug_origin d0 s c (g x)"
    and "\<forall>v \<in> set (url_slugs d1). slug_origin d0 s c v"
  shows "\<forall>v \<in> set (url_slugs d2). slug_origin d0 s c v"
  using assms
proof (induction xs arbitrary: d1)
  case Nil
  then show ?case by simp
next
  case (Cons x xs)
  from Cons.prems(1) obtain dm where s1: "save_url_slug d1 (g x) = Inr dm"
    and s2: "for_each (\<lambda>x d'. save_url_slug d' (g x)) xs dm = Inr d2"
    by (auto split: sum.splits)
  have "\<forall>v \<in> set (url_slugs dm). slug_origin d0 s c v"
    using save_url_slug_origin[OF s1] Cons.prems(2,3) by simp
  then show ?case
    using Cons.IH[OF s2] Cons.prems(2) by simp
qed

lemma history_subset: "set (url_slug_history d c) \<subseteq> set (url_slugs d)"
  by (auto simp: url_slug_history_def)

lemma in_history: "u \<in> set (url_slug_history d c) \<longleftrightarrow> u \<in> set (url_slugs d) \<and> slug_course u = c"
  by (auto simp: url_slug_history_def)

lemma stored_text_truthy [simp]: "truthy s \<Longrightarrow> stored_text e d c s = the s"
  by (simp add: stored_text_def)

lemma filter_singletonD: "filter P xs = [x] \<Longrightarrow> x \<in> set xs \<and> P x"
proof -
  assume "filter P xs = [x]"
  then have "x \<in> set (filter P xs)" by simp
  then show ?thesis by simp
qed

lemma update_or_create_active_origin:
  assumes "update_or_create_active e self s d1 = Inr d2" and "truthy s"
    and "\<forall>v \<in> set (url_slugs d1). slug_origin d0 (the s) (pk self) v"
  shows "(\<forall>v \<in> set (url_slugs d2). slug_origin d0 (the s) (pk self) v) \<and> links d2 = links d1"
proof (cases "filter is_active (url_slug_history d1 (pk self))")
  case Nil
  then have c: "create_url_slug d1 \<lparr>slug_pk = 0, slug_course = pk self, slug_partner = partner self,
                 url_slug = the s, is_active = True, is_active_on_draft = False\<rparr> = Inr d2"
    using assms(1,2) by (simp add: update_or_create_active_def)
  show ?thesis
    using create_url_slug_origin[OF c _ assms(3)] create_url_slug_Inr[OF c]
    by (simp add: slug_origin_def links_def)
next
  case (Cons obj rest)
  then have rest: "rest = []" using assms(1)
    by (auto simp: update_or_create_active_def split: list.splits)
  then have c: "save_url_slug d1 (obj\<lparr>slug_course := pk self, slug_partner := partner self, is_active := True,
                     url_slug := the s\<rparr>) = Inr d2"
    using assms(1,2) Cons by (simp add: update_or_create_active_def)
  show ?thesis
    using save_url_slug_origin[OF c _ assms(3)] save_url_slug_Inr[OF c]
    by (simp add: slug_origin_def links_def)
qed

lemma update_or_create_by_text_origin:
  assumes "update_or_create_by_text e self s d1 = Inr (d2, t, created)" and "truthy s"
    and "\<forall>v \<in> set (url_slugs d1). slug_origin d0 (the s) (pk self) v"
  shows "(\<forall>v \<in> set (url_slugs d2). slug_origin d0 (the s) (pk self) v) \<and> links d2 = links d1 \<and> t = the s"
proof (cases "filter (\<lambda>u. Some (url_slug u) = s) (url_slug_history d1 (pk self))")
  case Nil
  then have c: "create_url_slug d1 \<lparr>slug_pk = 0, slug_course = pk self, slug_partner = partner self,
                 url_slug = the s, is_active = True, is_active_on_draft = True\<rparr> = Inr d2" and t: "t = the s"
    using assms(1,2) by (auto simp: update_or_create_by_text_def Let_def split: sum.splits)
  show ?thesis
    using create_url_slug_origin[OF c _ assms(3)] create_url_slug_Inr[OF c] t
    by (simp add: slug_origin_def links_def)
next
  case (Cons obj rest)
  then have rest: "rest = []" using assms(1)
    by (auto simp: update_or_create_by_text_def split: list.splits)
  then have c: "save_url_slug d1 (obj\<lparr>url_slug := the s, is_active := True, is_active_on_draft := True,
                              slug_partner := partner self\<rparr>) = Inr d2" and t: "t = the s"
    using assms(1,2) Cons by (auto simp: update_or_create_by_text_def Let_def split: sum.splits)
  have "obj \<in> set (url_slug_history d1 (pk self))"
    using Cons rest filter_singletonD by fastforce
  then have "slug_course obj = pk self" by (simp add: in_history)
  then show ?thesis
    using save_url_slug_origin[OF c _ assms(3)] save_url_slug_Inr[OF c] t
    by (simp add: slug_origin_def links_def)
qed

lemma mark_official_entries_origin:
  assumes "mark_official_entries s off d1 = Inr d2"
    and "\<forall>v \<in> set (url_slugs d1). slug_origin d0 t c v"
  shows "(\<forall>v \<in> set (url_slugs d2). slug_origin d0 t c v) \<and> links d2 = links d1"
proof -
  have "\<forall>x \<in> set (filter (\<lambda>u. is_active_on_draft u \<or> Some (url_slug u) = s) (url_slug_history d1 off)).
          slug_origin d0 t c (x\<lparr>is_active_on_draft := (Some (url_slug x) = s)\<rparr>)"
    using assms(2) by (auto simp: in_history slug_origin_def)
  from for_each_save_origin[OF assms(1)[unfolded mark_official_entries_def] this assms(2)]
    for_each_save_courses[OF assms(1)[unfolded mark_official_entries_def]]
  show ?thesis by (simp add: links_def)
qed

lemma clear_other_slugs_origin:
  assumes "clear_other_slugs c' t' d1 = Inr d2"
    and "\<forall>v \<in> set (url_slugs d1). slug_origin d0 t c v"
  shows "(\<forall>v \<in> set (url_slugs d2). slug_origin d0 t c v) \<and> links d2 = links d1"
proof -
  have "\<forall>x \<in> set (filter (\<lambda>u. (is_active u \<or> is_active_on_draft u) \<and> url_slug u \<noteq> t') (url_slug_history d1 c')).
          slug_origin d0 t c (x\<lparr>is_active := False, is_active_on_draft := False\<rparr>)"
    using assms(2) by (auto simp: in_history slug_origin_def)
  from for_each_save_origin[OF assms(1)[unfolded clear_other_slugs_def] this assms(2)]
    for_each_save_courses[OF assms(1)[unfolded clear_other_slugs_def]]
  show ?thesis by (simp add: links_def)
qed

lemma origin_refl: "\<forall>v \<in> set (url_slugs d). slug_origin d s c v"
  by (auto simp: slug_origin_def)

lemma origin_filter: "\<forall>v \<in> set (url_slugs d). slug_origin d0 s c v \<Longrightarrow> \<forall>v \<in> set (url_slugs (delete_url_slugs P d)). slug_origin d0 s c v"
  by simp

lemma set_active_url_slug_draft_origin:
  assumes "set_active_url_slug_draft e now d self s = Inr d'" and "truthy s"
  shows "(\<forall>v \<in> set (url_slugs d'). slug_origin d (the s) (pk self) v) \<and> links d' = links d"
proof (cases "official_version (courses d) (pk self)")
  case None
  then obtain d2 where u: "update_or_create_active e self s d = Inr d2"
    and d': "d' = d2 \<or> d' = set_data_modified_timestamp now self d2"
    using assms(1) by (auto simp: set_active_url_slug_draft_def Let_def split: sum.splits if_splits)
  from update_or_create_active_origin[OF u assms(2) origin_refl] d'
  show ?thesis by auto
next
  case (Some off)
  then obtain d1 where m: "mark_official_entries s (pk off) d = Inr d1"
    using assms(1) by (auto simp: set_active_url_slug_draft_def Let_def split: sum.splits)
  note o1 = mark_official_entries_origin[OF m origin_refl, of "the s" "pk self"]
  show ?thesis
  proof (cases "found_in_official s (pk off) d")
    case True
    show ?thesis
    proof (cases "find is_active (url_slug_history d (pk self))")
      case None
      then have "d' = d1"
        using assms(1) Some m True by (simp add: set_active_url_slug_draft_def Let_def)
      then show ?thesis using o1 by simp
    next
      case act: (Some a)
      then have "d' = delete_url_slugs (\<lambda>u. slug_pk u = slug_pk a)
                       (if Some (url_slug a) \<noteq> s then set_data_modified_timestamp now self d1 else d1)"
        using assms(1) Some m True by (simp add: set_active_url_slug_draft_def Let_def)
      then show ?thesis using o1 by simp
    qed
  next
    case False
    then obtain d2 where u: "update_or_create_active e self s d1 = Inr d2"
      and d': "d' = d2 \<or> d' = set_data_modified_timestamp now self d2"
      using assms(1) Some m by (auto simp: set_active_url_slug_draft_def Let_def split: sum.splits if_splits)
    from update_or_create_active_origin[OF u assms(2)] o1 d'
    show ?thesis by auto
  qed
qed

lemma set_active_url_slug_official_origin:
  assumes "set_active_url_slug_official e now d self s = Inr d'" and "truthy s"
  shows "(\<forall>v \<in> set (url_slugs d'). slug_origin d (the s) (pk self) v) \<and> links d' = links d"
proof -
  define d1 where "d1 = (case draft_version self of None \<Rightarrow> d
                | Some dv \<Rightarrow> delete_url_slugs (\<lambda>u. slug_course u = dv \<and> is_active u) d)"
  have o1: "(\<forall>v \<in> set (url_slugs d1). slug_origin d (the s) (pk self) v) \<and> links d1 = links d"
    using origin_refl[of d "the s" "pk self"] by (auto simp: d1_def split: option.splits)
  obtain d2 t created where u: "update_or_create_by_text e self s d1 = Inr (d2, t, created)"
    and c: "clear_other_slugs (pk self) t (if created then set_data_modified_timestamp now self d2 else d2) = Inr d'"
    using assms(1) unfolding set_active_url_slug_official_def Let_def d1_def[symmetric]
    by (auto split: sum.splits)
  from update_or_create_by_text_origin[OF u assms(2)] o1
  have o2: "(\<forall>v \<in> set (url_slugs d2). slug_origin d (the s) (pk self) v) \<and> links d2 = links d" by auto
  then have "(\<forall>v \<in> set (url_slugs (if created then set_data_modified_timestamp now self d2 else d2)). slug_origin d (the s) (pk self) v)
      \<and> links (if created then set_data_modified_timestamp now self d2 else d2) = links d" by auto
  with clear_other_slugs_origin[OF c] show ?thesis by auto
qed

lemma set_active_url_slug_origin:
  assumes "set_active_url_slug e now d self s = Inr d'" and "truthy s"
  shows "(\<forall>v \<in> set (url_slugs d'). slug_origin d (the s) (pk self) v) \<and> links d' = links d"
  using assms set_active_url_slug_draft_origin set_active_url_slug_official_origin
  by (auto simp: set_active_url_slug_def split: if_splits)

lemma same_logical_course_sym: "same_logical_course d a b = same_logical_course d b a"
  by (auto simp: same_logical_course_def)

lemma excluded_same_logical:
  assumes "draft self \<or> self \<in> set (courses d)" and "excluded_course d self = Some b"
  shows "same_logical_course d (pk self) b"
proof (cases "draft self")
  case True
  then obtain off where "official_version (courses d) (pk self) = Some off" and "b = pk off"
    using assms(2) by (auto simp: excluded_course_def)
  then have "off \<in> set (courses d) \<and> draft_version off = Some (pk self)" and "b = pk off"
    by (auto simp: official_version_def dest: find_SomeD)
  then show ?thesis by (auto simp: same_logical_course_def)
next
  case False
  then have "self \<in> set (courses d)" and "draft_version self = Some b"
    using assms by (auto simp: excluded_course_def)
  then show ?thesis by (auto simp: same_logical_course_def)
qed

lemma not_in_use_same_logical:
  assumes "\<not> slug_already_in_use e d self t" and "draft self \<or> self \<in> set (courses d)"
    and "v \<in> set (url_slugs d)" and "url_slug v = t"
    and own: "\<And>a. db_iexact e a (str_lower e a)"
  shows "same_logical_course d (pk self) (slug_course v)"
proof -
  have "db_iexact e (url_slug v) (str_lower e t)" using assms(4) own by simp
  then have "slug_course v = pk self \<or> Some (slug_course v) = excluded_course d self"
    using assms(1,3) by (auto simp: slug_already_in_use_def)
  then show ?thesis
  proof
    assume "slug_course v = pk self"
    then show ?thesis by (simp add: same_logical_course_def)
  next
    assume "Some (slug_course v) = excluded_course d self"
    then have "excluded_course d self = Some (slug_course v)" by simp
    then show ?thesis by (rule excluded_same_logical[OF assms(2)])
  qed
qed

lemma activation_keeps_texts_unique:
  assumes ok: "set_active_url_slug e now d self s = Inr d'" and s: "truthy s"
    and self: "draft self \<or> self \<in> set (courses d)" and uniq: "slug_texts_unique d"
    and own: "\<And>a. db_iexact e a (str_lower e a)"
  shows "slug_texts_unique d'"
proof -
  have free: "\<not> slug_already_in_use e d self (the s)"
    using ok s by (auto simp: set_active_url_slug_def split: if_splits)
  from set_active_url_slug_origin[OF ok s]
  have orig: "\<And>v. v \<in> set (url_slugs d') \<Longrightarrow> slug_origin d (the s) (pk self) v"
    and l: "links d' = links d" by auto
  have "same_logical_course d (slug_course u) (slug_course v)"
    if u: "u \<in> set (url_slugs d')" and v: "v \<in> set (url_slugs d')" and eq: "url_slug u = url_slug v" for u v
  proof -
    consider (old_old) u0 v0 where "u0 \<in> set (url_slugs d)" "url_slug u = url_slug u0" "slug_course u = slug_course u0"
        "v0 \<in> set (url_slugs d)" "url_slug v = url_slug v0" "slug_course v = slug_course v0"
      | (new_old) v0 where "url_slug u = the s" "slug_course u = pk self"
        "v0 \<in> set (url_slugs d)" "url_slug v = url_slug v0" "slug_course v = slug_course v0"
      | (old_new) u0 where "u0 \<in> set (url_slugs d)" "url_slug u = url_slug u0" "slug_course u = slug_course u0"
        "url_slug v = the s" "slug_course v = pk self"
      | (new_new) "slug_course u = pk self" "slug_course v = pk self"
      using orig[OF u] orig[OF v] unfolding slug_origin_def by blast
    then show ?thesis
    proof cases
      case old_old
      then show ?thesis using uniq eq by (auto simp: slug_texts_unique_def)
    next
      case new_old
      then have "same_logical_course d (pk self) (slug_course v0)"
        using not_in_use_same_logical[OF free self _ _ own, of v0] eq by simp
      then show ?thesis using new_old by simp
    next
      case old_new
      then have "same_logical_course d (pk self) (slug_course u0)"
        using not_in_use_same_logical[OF free self _ _ own, of u0] eq by simp
      then show ?thesis using old_new by (simp add: same_logical_course_sym)
    next
      case new_new
      then show ?thesis by (simp add: same_logical_course_def)
    qed
  qed
  then show ?thesis
    unfolding slug_texts_unique_def using same_logical_course_links[OF l] by simp
qed

subsection \<open>Slug conflicts\<close>

text \<open>
  Claim C3, as the code has it. For a non-empty slug text, \<^verbatim>\<open>set_active_url_slug\<close>
  raises its conflict error (and, being atomic, persists nothing: the error result carries
  no store) exactly when some slug record whose text the lookup \<^verbatim>\<open>url_slug__iexact\<close>
  matches with the lower-cased text, whatever its \<^verbatim>\<open>is_active\<close> and
  \<^verbatim>\<open>is_active_on_draft\<close> flags, belongs to a course other than this one and its draft
  or official counterpart. Where the lookup matches every text with its own lower-cased
  form, a successful activation keeps slug texts unique across logical courses: if no text
  was shared by records of two different logical courses before, none is afterwards.
\<close>

theorem set_active_url_slug_conflict:
  assumes "truthy s"
  shows "((\<exists>t. set_active_url_slug e now d self s = Inl (SlugInUse t)) \<longleftrightarrow>
            (\<exists>u \<in> set (url_slugs d). db_iexact e (url_slug u) (str_lower e (the s))
                \<and> slug_course u \<noteq> pk self \<and> Some (slug_course u) \<noteq> excluded_course d self))
       \<and> ((\<forall>a. db_iexact e a (str_lower e a)) \<longrightarrow>
            (\<forall>d'. set_active_url_slug e now d self s = Inr d' \<longrightarrow> (draft self \<or> self \<in> set (courses d))
               \<longrightarrow> slug_texts_unique d \<longrightarrow> slug_texts_unique d'))"
proof -
  have "slug_already_in_use e d self (the s) \<longleftrightarrow>
          (\<exists>u \<in> set (url_slugs d). db_iexact e (url_slug u) (str_lower e (the s))
                \<and> slug_course u \<noteq> pk self \<and> Some (slug_course u) \<noteq> excluded_course d self)"
    by (simp add: slug_already_in_use_def)
  then show ?thesis
    using set_active_url_slug_in_use_iff[of e now d self s] assms activation_keeps_texts_unique[of e now d self s]
    by blast
qed

lemmas ex_defs = example_env_def mk_course_def mk_slug_def empty_db_def paired_db_def history_db_def
  lone_draft_db_def draft_history_db_def
lemmas slug_defs = set_active_url_slug_def set_active_url_slug_official_def set_active_url_slug_draft_def
  update_or_create_by_text_def update_or_create_active_def clear_other_slugs_def mark_official_entries_def
  found_in_official_def url_slug_history_def save_url_slug_def create_url_slug_def check_url_slug_def
  violates_unique_def delete_url_slugs_def set_data_modified_timestamp_def stored_text_def truthy_def
  slug_already_in_use_def excluded_course_def official_version_def get_pk_def new_pk_def
  ascii_iexact_def ascii_lower_def ascii_lower_char_def Let_def

text \<open>
  The claim as stated ties the conflict to ownership: a record flagged active or active on
  the draft. In \<open>history_db\<close> course 2 keeps \<open>python-basics\<close> only as an unflagged
  history entry, and course 1 is still refused that text.
\<close>

theorem set_active_url_slug_conflict_counterexample:
  "set_active_url_slug example_env 0 history_db (mk_course 1 False None ''course-v1:X+1'') (Some ''python-basics'')
     = Inl (SlugInUse ''python-basics'')
   \<and> \<not> spec_owned_by_other_course history_db (mk_course 1 False None ''course-v1:X+1'') ''python-basics''"
  by (simp add: ex_defs slug_defs spec_owned_by_other_course_def same_logical_course_def)


text \<open>The official course of \<open>paired_db\<close> takes a new text.\<close>

theorem set_active_url_slug_conflict_witness:
  "truthy (Some ''intro-to-x'')
   \<and> \<not> (\<exists>a. \<not> db_iexact example_env a (str_lower example_env a))
   \<and> \<not> (\<exists>t. set_active_url_slug example_env 0 paired_db (mk_course 2 False (Some 1) ''course-v1:X+1'') (Some ''intro-to-x'') = Inl (SlugInUse t))
   \<and> mk_course 2 False (Some 1) ''course-v1:X+1'' \<in> set (courses paired_db)
   \<and> slug_texts_unique paired_db
   \<and> (\<exists>d'. set_active_url_slug example_env 0 paired_db (mk_course 2 False (Some 1) ''course-v1:X+1'') (Some ''intro-to-x'') = Inr d'
          \<and> slug_texts_unique d')"
proof -
  have t: "truthy (Some ''intro-to-x'')" by (simp add: truthy_def)
  have r: "\<exists>d'. set_active_url_slug example_env 0 paired_db (mk_course 2 False (Some 1) ''course-v1:X+1'') (Some ''intro-to-x'') = Inr d'"
    by (simp add: ex_defs slug_defs)
  have c: "mk_course 2 False (Some 1) ''course-v1:X+1'' \<in> set (courses paired_db)"
    by (simp add: ex_defs)
  have u: "slug_texts_unique paired_db"
    by (simp add: ex_defs slug_texts_unique_def same_logical_course_def)
  have own: "\<forall>a. db_iexact example_env a (str_lower example_env a)"
    by (simp add: example_env_def ascii_iexact_lower)
  show ?thesis
    using set_active_url_slug_conflict[OF t, of example_env 0 paired_db "mk_course 2 False (Some 1) ''course-v1:X+1''"] t r c u own
    by auto
qed

subsection \<open>Resolution of the active slug\<close>

text \<open>
  Claim C7. For an official course \<^verbatim>\<open>active_url_slug\<close> is the text of one of its own
  records flagged \<^verbatim>\<open>is_active\<close>, and \<open>None\<close> exactly when it has none. For a draft
  course it is the text of an own active record when there is one; when there is none it
  is \<open>None\<close> if the draft has no official counterpart, and otherwise the text of a record
  of the counterpart flagged \<^verbatim>\<open>is_active_on_draft\<close>, \<open>None\<close> exactly when the
  counterpart has no such record.
\<close>

theorem active_url_slug_resolution:
  "(\<not> draft self \<longrightarrow>
      (\<forall>t. active_url_slug d self = Some t \<longrightarrow>
           (\<exists>u \<in> set (url_slug_history d (pk self)). is_active u \<and> url_slug u = t))
    \<and> (active_url_slug d self = None \<longleftrightarrow> (\<forall>u \<in> set (url_slug_history d (pk self)). \<not> is_active u)))
 \<and> (draft self \<longrightarrow>
      ((\<exists>u \<in> set (url_slug_history d (pk self)). is_active u) \<longrightarrow>
         (\<exists>u \<in> set (url_slug_history d (pk self)). is_active u \<and> active_url_slug d self = Some (url_slug u)))
    \<and> ((\<forall>u \<in> set (url_slug_history d (pk self)). \<not> is_active u) \<longrightarrow>
         (case official_version (courses d) (pk self) of
            None \<Rightarrow> active_url_slug d self = None
          | Some off \<Rightarrow>
              (\<forall>t. active_url_slug d self = Some t \<longrightarrow>
                 (\<exists>u \<in> set (url_slug_history d (pk off)). is_active_on_draft u \<and> url_slug u = t))
            \<and> (active_url_slug d self = None \<longleftrightarrow>
                 (\<forall>u \<in> set (url_slug_history d (pk off)). \<not> is_active_on_draft u)))))"
proof -
  let ?own = "find is_active (url_slug_history d (pk self))"
  have own_none: "?own = None \<longleftrightarrow> (\<forall>u \<in> set (url_slug_history d (pk self)). \<not> is_active u)"
    by (rule find_None_all)
  have own_some: "\<And>a. ?own = Some a \<Longrightarrow> a \<in> set (url_slug_history d (pk self)) \<and> is_active a"
    by (rule find_SomeD)
  show ?thesis
  proof (cases ?own)
    case None
    then show ?thesis
      using own_none
      by (auto simp: active_url_slug_def Let_def find_None_all dest: find_SomeD split: option.splits)
  next
    case (Some a)
    then show ?thesis
      using own_some[OF Some] own_none
      by (auto simp: active_url_slug_def Let_def)
  qed
qed

text \<open>
  In \<open>paired_db\<close> the official course resolves its own active record, and the draft,
  which has no record of its own, inherits the text flagged on the official row.
\<close>

theorem active_url_slug_resolution_witness:
  "\<not> draft (mk_course 2 False (Some 1) ''course-v1:X+1'')
   \<and> active_url_slug paired_db (mk_course 2 False (Some 1) ''course-v1:X+1'') = Some ''intro101''
   \<and> (\<exists>u \<in> set (url_slug_history paired_db 2). is_active u \<and> url_slug u = ''intro101'')
   \<and> draft (mk_course 1 True None ''course-v1:X+1'')
   \<and> \<not> (\<exists>u \<in> set (url_slug_history paired_db 1). is_active u)
   \<and> official_version (courses paired_db) 1 = Some (mk_course 2 False (Some 1) ''course-v1:X+1'')
   \<and> active_url_slug paired_db (mk_course 1 True None ''course-v1:X+1'') = Some ''intro101''
   \<and> (\<exists>u \<in> set (url_slug_history paired_db 2). is_active_on_draft u \<and> url_slug u = ''intro101'')"
  using active_url_slug_resolution[of "mk_course 2 False (Some 1) ''course-v1:X+1''" paired_db]
    active_url_slug_resolution[of "mk_course 1 True None ''course-v1:X+1''" paired_db]
  by (simp add: ex_defs active_url_slug_def url_slug_history_def official_version_def)

subsection \<open>Loops of saves, record by record\<close>

lemma save_url_slug_slugs:
  "save_url_slug d u = Inr d' \<Longrightarrow>
     url_slugs d' = map (\<lambda>v. if slug_pk v = slug_pk u then u else v) (url_slugs d)"
  by (auto dest!: save_url_slug_Inr)

lemma for_each_save_members:
  assumes "for_each (\<lambda>x d'. save_url_slug d' (g x)) xs d = Inr d'"
    and "\<And>x. slug_pk (g x) = slug_pk x"
  shows "\<forall>u \<in> set (url_slugs d').
           (u \<in> set (url_slugs d) \<and> slug_pk u \<notin> slug_pk ` set xs) \<or> (\<exists>x \<in> set xs. u = g x)"
  using assms(1)
proof (induction xs arbitrary: d)
  case Nil
  then show ?case by simp
next
  case (Cons x xs)
  from Cons.prems obtain dm where s1: "save_url_slug d (g x) = Inr dm"
    and s2: "for_each (\<lambda>x d'. save_url_slug d' (g x)) xs dm = Inr d'"
    by (auto split: sum.splits)
  have dm: "url_slugs dm = map (\<lambda>v. if slug_pk v = slug_pk x then g x else v) (url_slugs d)"
    using save_url_slug_slugs[OF s1] assms(2) by simp
  show ?case
  proof
    fix u assume "u \<in> set (url_slugs d')"
    with Cons.IH[OF s2]
    consider "u \<in> set (url_slugs dm)" "slug_pk u \<notin> slug_pk ` set xs" | "\<exists>x \<in> set xs. u = g x"
      by blast
    then show "(u \<in> set (url_slugs d) \<and> slug_pk u \<notin> slug_pk ` set (x # xs)) \<or> (\<exists>y \<in> set (x # xs). u = g y)"
    proof cases
      case 1
      then show ?thesis unfolding dm by (auto split: if_splits)
    next
      case 2
      then show ?thesis by auto
    qed
  qed
qed

lemma for_each_save_survives:
  assumes "for_each (\<lambda>x d'. save_url_slug d' (g x)) xs d = Inr d'"
    and "\<And>x. slug_pk (g x) = slug_pk x"
    and "u \<in> set (url_slugs d)" and "slug_pk u \<notin> slug_pk ` set xs"
  shows "u \<in> set (url_slugs d')"
  using assms(1,3,4)
proof (induction xs arbitrary: d)
  case Nil
  then show ?case by simp
next
  case (Cons x xs)
  from Cons.prems obtain dm where s1: "save_url_slug d (g x) = Inr dm"
    and s2: "for_each (\<lambda>x d'. save_url_slug d' (g x)) xs dm = Inr d'"
    by (auto split: sum.splits)
  have "u \<in> set (url_slugs dm)"
    using save_url_slug_slugs[OF s1] assms(2) Cons.prems(2,3) by auto
  then show ?case using Cons.IH[OF s2] Cons.prems(3) by simp
qed

lemma for_each_save_pks:
  assumes "for_each (\<lambda>x d'. save_url_slug d' (g x)) xs d = Inr d'"
    and "\<And>x. slug_pk (g x) = slug_pk x"
  shows "map slug_pk (url_slugs d') = map slug_pk (url_slugs d)"
  using assms(1)
proof (induction xs arbitrary: d)
  case Nil
  then show ?case by simp
next
  case (Cons x xs)
  from Cons.prems obtain dm where s1: "save_url_slug d (g x) = Inr dm"
    and s2: "for_each (\<lambda>x d'. save_url_slug d' (g x)) xs dm = Inr d'"
    by (auto split: sum.splits)
  have "map slug_pk (url_slugs dm) = map slug_pk (url_slugs d)"
    using save_url_slug_slugs[OF s1] assms(2) by (simp add: comp_def if_distrib cong: if_cong)
  then show ?case using Cons.IH[OF s2] by simp
qed

lemma distinct_pk_eq:
  "distinct (map f xs) \<Longrightarrow> a \<in> set xs \<Longrightarrow> b \<in> set xs \<Longrightarrow> f a = f b \<Longrightarrow> a = b"
  by (meson distinct_map inj_onD)

subsection \<open>The official branch\<close>

lemma update_or_create_by_text_post:
  assumes "update_or_create_by_text e self s d1 = Inr (d2, t, created)" and "truthy s"
  shows "\<exists>obj. obj \<in> set (url_slug_history d2 (pk self)) \<and> url_slug obj = the s
            \<and> is_active obj \<and> is_active_on_draft obj
            \<and> (\<forall>u \<in> set (url_slug_history d2 (pk self)). url_slug u = the s \<longrightarrow> u = obj)"
    and "distinct (map slug_pk (url_slugs d1)) \<Longrightarrow> distinct (map slug_pk (url_slugs d2))"
    and "\<forall>u \<in> set (url_slugs d2). slug_course u \<noteq> pk self \<longrightarrow> u \<in> set (url_slugs d1)"
    and "t = the s"
proof -
  let ?match = "filter (\<lambda>u. Some (url_slug u) = s) (url_slug_history d1 (pk self))"
  have s: "s = Some (the s)" using assms(2) by (auto simp: truthy_def split: option.splits)
  have all: "(\<exists>obj. obj \<in> set (url_slug_history d2 (pk self)) \<and> url_slug obj = the s
            \<and> is_active obj \<and> is_active_on_draft obj
            \<and> (\<forall>u \<in> set (url_slug_history d2 (pk self)). url_slug u = the s \<longrightarrow> u = obj))
     \<and> (distinct (map slug_pk (url_slugs d1)) \<longrightarrow> distinct (map slug_pk (url_slugs d2)))
     \<and> (\<forall>u \<in> set (url_slugs d2). slug_course u \<noteq> pk self \<longrightarrow> u \<in> set (url_slugs d1))
     \<and> t = the s"
  proof (cases ?match)
    case Nil
    define n where "n = \<lparr>slug_pk = new_pk (map slug_pk (url_slugs d1)), slug_course = pk self,
       slug_partner = partner self, url_slug = the s, is_active = True, is_active_on_draft = True\<rparr>"
    have c: "create_url_slug d1 \<lparr>slug_pk = 0, slug_course = pk self, slug_partner = partner self,
                 url_slug = the s, is_active = True, is_active_on_draft = True\<rparr> = Inr d2" and t: "t = the s"
      using assms Nil by (auto simp: update_or_create_by_text_def Let_def split: sum.splits)
    have d2: "url_slugs d2 = url_slugs d1 @ [n]"
      using create_url_slug_Inr[OF c] by (simp add: n_def)
    have none: "\<And>u. u \<in> set (url_slugs d1) \<Longrightarrow> slug_course u = pk self \<Longrightarrow> url_slug u \<noteq> the s"
    proof
      fix u assume "u \<in> set (url_slugs d1)" "slug_course u = pk self" "url_slug u = the s"
      then have "u \<in> set ?match" using s by (auto simp: in_history)
      then show False using Nil by simp
    qed
    have fresh: "new_pk (map slug_pk (url_slugs d1)) \<notin> set (map slug_pk (url_slugs d1))"
      using new_pk_fresh by blast
    have "n \<in> set (url_slug_history d2 (pk self)) \<and> url_slug n = the s \<and> is_active n \<and> is_active_on_draft n
          \<and> (\<forall>u \<in> set (url_slug_history d2 (pk self)). url_slug u = the s \<longrightarrow> u = n)"
      using none by (auto simp: in_history d2) (simp_all add: n_def)
    moreover have "distinct (map slug_pk (url_slugs d1)) \<longrightarrow> distinct (map slug_pk (url_slugs d2))"
      using fresh by (simp add: d2 n_def)
    moreover have "\<forall>u \<in> set (url_slugs d2). slug_course u \<noteq> pk self \<longrightarrow> u \<in> set (url_slugs d1)"
      by (auto simp: d2 n_def)
    ultimately show ?thesis using t by blast
  next
    case (Cons obj rest)
    then have rest: "rest = []" using assms(1)
      by (auto simp: update_or_create_by_text_def split: list.splits)
    define o' where "o' = obj\<lparr>url_slug := the s, is_active := True, is_active_on_draft := True,
                              slug_partner := partner self\<rparr>"
    have c: "save_url_slug d1 o' = Inr d2" and t: "t = the s"
      using assms Cons rest by (auto simp: update_or_create_by_text_def Let_def o'_def split: sum.splits)
    have d2: "url_slugs d2 = map (\<lambda>v. if slug_pk v = slug_pk obj then o' else v) (url_slugs d1)"
      using save_url_slug_slugs[OF c] by (simp add: o'_def)
    have m: "set ?match = {obj}" using Cons rest by simp
    then have obj: "obj \<in> set (url_slugs d1)" "slug_course obj = pk self"
      by (auto simp: in_history)
    have only: "\<And>u. u \<in> set (url_slugs d1) \<Longrightarrow> slug_course u = pk self \<Longrightarrow> url_slug u = the s \<Longrightarrow> u = obj"
    proof -
      fix u assume "u \<in> set (url_slugs d1)" "slug_course u = pk self" "url_slug u = the s"
      then have "u \<in> set ?match" using s by (auto simp: in_history)
      then have "u \<in> {obj}" unfolding m .
      then show "u = obj" by simp
    qed
    have "o' \<in> set (url_slugs d2)" using obj(1) by (force simp: d2)
    then have "o' \<in> set (url_slug_history d2 (pk self)) \<and> url_slug o' = the s \<and> is_active o' \<and> is_active_on_draft o'"
      using obj(2) by (simp add: in_history o'_def)
    moreover have "\<forall>u \<in> set (url_slug_history d2 (pk self)). url_slug u = the s \<longrightarrow> u = o'"
      using only by (auto simp: in_history d2 split: if_splits)
    moreover have "distinct (map slug_pk (url_slugs d1)) \<longrightarrow> distinct (map slug_pk (url_slugs d2))"
    proof -
      have "map slug_pk (url_slugs d2) = map slug_pk (url_slugs d1)"
        by (simp add: d2 o'_def comp_def if_distrib cong: if_cong)
      then show ?thesis by simp
    qed
    moreover have "\<forall>u \<in> set (url_slugs d2). slug_course u \<noteq> pk self \<longrightarrow> u \<in> set (url_slugs d1)"
      using obj(2) by (auto simp: d2 o'_def split: if_splits)
    ultimately show ?thesis using t by blast
  qed
  show "\<exists>obj. obj \<in> set (url_slug_history d2 (pk self)) \<and> url_slug obj = the s
            \<and> is_active obj \<and> is_active_on_draft obj
            \<and> (\<forall>u \<in> set (url_slug_history d2 (pk self)). url_slug u = the s \<longrightarrow> u = obj)"
    using all by blast
  show "distinct (map slug_pk (url_slugs d1)) \<Longrightarrow> distinct (map slug_pk (url_slugs d2))"
    using all by blast
  show "\<forall>u \<in> set (url_slugs d2). slug_course u \<noteq> pk self \<longrightarrow> u \<in> set (url_slugs d1)"
    using all by blast
  show "t = the s" using all by blast
qed

lemma clear_other_slugs_post:
  assumes c: "clear_other_slugs c t d3 = Inr d'"
  shows "\<forall>u \<in> set (url_slug_history d' c). url_slug u \<noteq> t \<longrightarrow> \<not> is_active u \<and> \<not> is_active_on_draft u"
    and "\<forall>u \<in> set (url_slug_history d' c). url_slug u = t \<longrightarrow> u \<in> set (url_slug_history d3 c)"
    and "\<forall>u \<in> set (url_slugs d'). slug_course u \<noteq> c \<longrightarrow> u \<in> set (url_slugs d3)"
    and "distinct (map slug_pk (url_slugs d3)) \<Longrightarrow> u \<in> set (url_slug_history d3 c) \<Longrightarrow> url_slug u = t
           \<Longrightarrow> u \<in> set (url_slug_history d' c)"
proof -
  let ?L = "filter (\<lambda>u. (is_active u \<or> is_active_on_draft u) \<and> url_slug u \<noteq> t) (url_slug_history d3 c)"
  let ?g = "\<lambda>x. x\<lparr>is_active := False, is_active_on_draft := False\<rparr>"
  have fe: "for_each (\<lambda>x d'. save_url_slug d' (?g x)) ?L d3 = Inr d'"
    using c by (simp add: clear_other_slugs_def)
  have pk: "\<And>x. slug_pk (?g x) = slug_pk x" by simp
  note mem = for_each_save_members[OF fe pk, rule_format]
  show "\<forall>u \<in> set (url_slug_history d' c). url_slug u \<noteq> t \<longrightarrow> \<not> is_active u \<and> \<not> is_active_on_draft u"
  proof (intro ballI impI)
    fix u assume u: "u \<in> set (url_slug_history d' c)" and t: "url_slug u \<noteq> t"
    then have "u \<in> set (url_slugs d')" and cu: "slug_course u = c" by (auto simp: in_history)
    from mem[OF this(1)] show "\<not> is_active u \<and> \<not> is_active_on_draft u"
    proof
      assume a: "u \<in> set (url_slugs d3) \<and> slug_pk u \<notin> slug_pk ` set ?L"
      then have "u \<notin> set ?L" by blast
      then show ?thesis using a t cu by (auto simp: in_history)
    next
      assume "\<exists>x \<in> set ?L. u = ?g x"
      then show ?thesis by auto
    qed
  qed
  show "\<forall>u \<in> set (url_slug_history d' c). url_slug u = t \<longrightarrow> u \<in> set (url_slug_history d3 c)"
  proof (intro ballI impI)
    fix u assume u: "u \<in> set (url_slug_history d' c)" and t: "url_slug u = t"
    then have "u \<in> set (url_slugs d')" and cu: "slug_course u = c" by (auto simp: in_history)
    from mem[OF this(1)] show "u \<in> set (url_slug_history d3 c)"
    proof
      assume "u \<in> set (url_slugs d3) \<and> slug_pk u \<notin> slug_pk ` set ?L"
      then show ?thesis using cu by (simp add: in_history)
    next
      assume "\<exists>x \<in> set ?L. u = ?g x"
      then show ?thesis using t by auto
    qed
  qed
  show "\<forall>u \<in> set (url_slugs d'). slug_course u \<noteq> c \<longrightarrow> u \<in> set (url_slugs d3)"
  proof (intro ballI impI)
    fix u assume u: "u \<in> set (url_slugs d')" and cu: "slug_course u \<noteq> c"
    from mem[OF u] show "u \<in> set (url_slugs d3)"
    proof
      assume "u \<in> set (url_slugs d3) \<and> slug_pk u \<notin> slug_pk ` set ?L"
      then show ?thesis by simp
    next
      assume "\<exists>x \<in> set ?L. u = ?g x"
      then show ?thesis using cu by (auto simp: in_history)
    qed
  qed
  show "u \<in> set (url_slug_history d' c)"
    if dist: "distinct (map slug_pk (url_slugs d3))" and u: "u \<in> set (url_slug_history d3 c)" and t: "url_slug u = t"
  proof -
    have u3: "u \<in> set (url_slugs d3)" and cu: "slug_course u = c" using u by (auto simp: in_history)
    have "slug_pk u \<notin> slug_pk ` set ?L"
    proof
      assume "slug_pk u \<in> slug_pk ` set ?L"
      then obtain x where x: "x \<in> set ?L" "slug_pk u = slug_pk x" by auto
      then have "x \<in> set (url_slugs d3)" by (auto simp: in_history)
      from distinct_pk_eq[OF dist u3 this x(2)] have "u = x" .
      then show False using x(1) t by simp
    qed
    from for_each_save_survives[OF fe pk u3 this] show ?thesis using cu by (simp add: in_history)
  qed
qed

lemma at_most_one_active_subset:
  assumes "\<forall>u \<in> set (url_slugs d'). slug_course u = c \<longrightarrow> u \<in> set (url_slugs d)"
  shows "at_most_one_active d c \<Longrightarrow> at_most_one_active d' c"
    and "at_most_one_active_on_draft d c \<Longrightarrow> at_most_one_active_on_draft d' c"
proof -
  have sub: "set (url_slug_history d' c) \<subseteq> set (url_slug_history d c)"
    using assms by (auto simp: in_history)
  show "at_most_one_active d c \<Longrightarrow> at_most_one_active d' c"
    unfolding at_most_one_active_def using sub by blast
  show "at_most_one_active_on_draft d c \<Longrightarrow> at_most_one_active_on_draft d' c"
    unfolding at_most_one_active_on_draft_def using sub by blast
qed

lemma set_active_url_slug_official_steps:
  assumes "set_active_url_slug_official e now d self s = Inr d'"
  obtains d1 d2 t created where
    "d1 = (case draft_version self of None \<Rightarrow> d
           | Some dv \<Rightarrow> delete_url_slugs (\<lambda>u. slug_course u = dv \<and> is_active u) d)"
    "update_or_create_by_text e self s d1 = Inr (d2, t, created)"
    "clear_other_slugs (pk self) t (if created then set_data_modified_timestamp now self d2 else d2) = Inr d'"
  using assms unfolding set_active_url_slug_official_def Let_def
  by (auto split: sum.splits)

text \<open>
  Claim C5. Let an official course activate a non-empty slug text and the call succeed, in
  a store whose slug records have distinct primary keys. Then a record of the course with
  that text is flagged active and active on the draft, and every record of the course
  with another text has both flags cleared. So the course has at most one active record
  and at most one record active on the draft; and for every other course each of the two
  properties, if it held before, holds afterwards.
\<close>

theorem official_activation:
  assumes off: "\<not> draft self" and s: "truthy s"
    and dist: "distinct (map slug_pk (url_slugs d))"
    and ok: "set_active_url_slug e now d self s = Inr d'"
  shows "(\<exists>u \<in> set (url_slug_history d' (pk self)). url_slug u = the s \<and> is_active u \<and> is_active_on_draft u)
       \<and> (\<forall>u \<in> set (url_slug_history d' (pk self)). url_slug u \<noteq> the s \<longrightarrow> \<not> is_active u \<and> \<not> is_active_on_draft u)
       \<and> at_most_one_active d' (pk self) \<and> at_most_one_active_on_draft d' (pk self)
       \<and> (\<forall>c. c \<noteq> pk self \<longrightarrow> (at_most_one_active d c \<longrightarrow> at_most_one_active d' c)
                              \<and> (at_most_one_active_on_draft d c \<longrightarrow> at_most_one_active_on_draft d' c))"
proof -
  have "set_active_url_slug_official e now d self s = Inr d'"
    using ok off by (auto simp: set_active_url_slug_def split: if_splits)
  then obtain d1 d2 t created where
    d1: "d1 = (case draft_version self of None \<Rightarrow> d
           | Some dv \<Rightarrow> delete_url_slugs (\<lambda>u. slug_course u = dv \<and> is_active u) d)"
    and uc: "update_or_create_by_text e self s d1 = Inr (d2, t, created)"
    and cl: "clear_other_slugs (pk self) t (if created then set_data_modified_timestamp now self d2 else d2) = Inr d'"
    by (rule set_active_url_slug_official_steps)
  define d3 where "d3 = (if created then set_data_modified_timestamp now self d2 else d2)"
  have slugs3: "url_slugs d3 = url_slugs d2" by (simp add: d3_def)
  have hist3: "\<And>c. url_slug_history d3 c = url_slug_history d2 c" by (simp add: d3_def)
  have cl3: "clear_other_slugs (pk self) t d3 = Inr d'" using cl by (simp add: d3_def)
  have sub1: "set (url_slugs d1) \<subseteq> set (url_slugs d)" by (auto simp: d1 split: option.splits)
  have dist1: "distinct (map slug_pk (url_slugs d1))"
    using dist by (auto simp: d1 distinct_map_filter split: option.splits)
  note post2 = update_or_create_by_text_post[OF uc s]
  have t: "t = the s" by (rule post2(4))
  have dist3: "distinct (map slug_pk (url_slugs d3))" using post2(2)[OF dist1] slugs3 by simp
  from post2(1) obtain obj where obj: "obj \<in> set (url_slug_history d3 (pk self))" "url_slug obj = t"
    "is_active obj" "is_active_on_draft obj"
    and only: "\<And>u. u \<in> set (url_slug_history d3 (pk self)) \<Longrightarrow> url_slug u = t \<Longrightarrow> u = obj"
    unfolding hist3 t by blast
  note post3 = clear_other_slugs_post[OF cl3]
  have obj': "obj \<in> set (url_slug_history d' (pk self))"
    by (rule post3(4)[OF dist3 obj(1,2)])
  have cleared: "\<And>u. u \<in> set (url_slug_history d' (pk self)) \<Longrightarrow> url_slug u \<noteq> t \<Longrightarrow> \<not> is_active u \<and> \<not> is_active_on_draft u"
    using post3(1) by blast
  have flagged: "u = obj" if "u \<in> set (url_slug_history d' (pk self))" "is_active u \<or> is_active_on_draft u" for u
  proof -
    have "url_slug u = t" using cleared[OF that(1)] that(2) by blast
    moreover from this have "u \<in> set (url_slug_history d3 (pk self))" using post3(2) that(1) by blast
    ultimately show ?thesis by (rule only[rotated])
  qed
  have other: "\<forall>u \<in> set (url_slugs d'). slug_course u = c \<longrightarrow> u \<in> set (url_slugs d)" if "c \<noteq> pk self" for c
  proof (intro ballI impI)
    fix u assume "u \<in> set (url_slugs d')" "slug_course u = c"
    then have "u \<in> set (url_slugs d3)" using post3(3) that by blast
    then have "u \<in> set (url_slugs d1)" using post2(3) \<open>slug_course u = c\<close> that slugs3 by auto
    then show "u \<in> set (url_slugs d)" using sub1 by blast
  qed
  have "\<exists>u \<in> set (url_slug_history d' (pk self)). url_slug u = the s \<and> is_active u \<and> is_active_on_draft u"
    using obj' obj t by blast
  moreover have "\<forall>u \<in> set (url_slug_history d' (pk self)). url_slug u \<noteq> the s \<longrightarrow> \<not> is_active u \<and> \<not> is_active_on_draft u"
    using cleared t by blast
  moreover have "at_most_one_active d' (pk self)"
    unfolding at_most_one_active_def using flagged by blast
  moreover have "at_most_one_active_on_draft d' (pk self)"
    unfolding at_most_one_active_on_draft_def using flagged by blast
  moreover have "\<forall>c. c \<noteq> pk self \<longrightarrow> (at_most_one_active d c \<longrightarrow> at_most_one_active d' c)
                              \<and> (at_most_one_active_on_draft d c \<longrightarrow> at_most_one_active_on_draft d' c)"
    using at_most_one_active_subset[OF other] by blast
  ultimately show ?thesis by blast
qed

text \<open>The official course of \<open>paired_db\<close> moves from \<open>intro101\<close> to \<open>intro-to-x\<close>.\<close>

theorem official_activation_witness:
  "\<not> draft (mk_course 2 False (Some 1) ''course-v1:X+1'')
   \<and> truthy (Some ''intro-to-x'')
   \<and> distinct (map slug_pk (url_slugs paired_db))
   \<and> (\<exists>d'. set_active_url_slug example_env 0 paired_db (mk_course 2 False (Some 1) ''course-v1:X+1'') (Some ''intro-to-x'') = Inr d'
        \<and> (\<exists>u \<in> set (url_slug_history d' 2). url_slug u = ''intro-to-x'' \<and> is_active u \<and> is_active_on_draft u)
        \<and> (\<exists>u \<in> set (url_slug_history d' 2). url_slug u = ''intro101'' \<and> \<not> is_active u \<and> \<not> is_active_on_draft u)
        \<and> at_most_one_active d' 2 \<and> at_most_one_active_on_draft d' 2)"
proof -
  have a: "\<not> draft (mk_course 2 False (Some 1) ''course-v1:X+1'')" by (simp add: ex_defs)
  have b: "truthy (Some ''intro-to-x'')" by (simp add: truthy_def)
  have c: "distinct (map slug_pk (url_slugs paired_db))" by (simp add: ex_defs)
  have "\<exists>d'. set_active_url_slug example_env 0 paired_db (mk_course 2 False (Some 1) ''course-v1:X+1'') (Some ''intro-to-x'') = Inr d'
    \<and> (\<exists>u \<in> set (url_slug_history d' 2). url_slug u = ''intro101'' \<and> \<not> is_active u \<and> \<not> is_active_on_draft u)"
    by (simp add: ex_defs slug_defs del: set_filter)
  then obtain d' where d: "set_active_url_slug example_env 0 paired_db (mk_course 2 False (Some 1) ''course-v1:X+1'') (Some ''intro-to-x'') = Inr d'"
    and old: "\<exists>u \<in> set (url_slug_history d' 2). url_slug u = ''intro101'' \<and> \<not> is_active u \<and> \<not> is_active_on_draft u"
    by blast
  have p: "pk (mk_course 2 False (Some 1) ''course-v1:X+1'') = 2" by (simp add: ex_defs)
  from official_activation[OF a b c d, unfolded p] a b c d old show ?thesis
    by auto
qed

lemma for_each_save_exact:
  assumes "for_each (\<lambda>x d'. save_url_slug d' (g x)) xs d = Inr d'"
    and pk: "\<And>x. slug_pk (g x) = slug_pk x"
    and "distinct (map slug_pk (url_slugs d))" and "set xs \<subseteq> set (url_slugs d)" and "distinct xs"
  shows "url_slugs d' = map (\<lambda>v. if v \<in> set xs then g v else v) (url_slugs d)"
  using assms(1,3,4,5)
proof (induction xs arbitrary: d)
  case Nil
  then show ?case by simp
next
  case (Cons x xs)
  from Cons.prems(1) obtain dm where s1: "save_url_slug d (g x) = Inr dm"
    and s2: "for_each (\<lambda>x d'. save_url_slug d' (g x)) xs dm = Inr d'"
    by (auto split: sum.splits)
  have x: "x \<in> set (url_slugs d)" and xs: "set xs \<subseteq> set (url_slugs d)" and nx: "x \<notin> set xs"
    and dxs: "distinct xs"
    using Cons.prems(3,4) by auto
  have same: "\<And>v. v \<in> set (url_slugs d) \<Longrightarrow> (slug_pk v = slug_pk x) = (v = x)"
    using distinct_pk_eq[OF Cons.prems(2) _ x] by blast
  have dm: "url_slugs dm = map (\<lambda>v. if v = x then g x else v) (url_slugs d)"
    using save_url_slug_slugs[OF s1] pk same by (simp cong: map_cong)
  have pks: "map slug_pk (url_slugs dm) = map slug_pk (url_slugs d)"
    by (simp add: dm comp_def if_distrib pk cong: if_cong)
  have dist_m: "distinct (map slug_pk (url_slugs dm))" using pks Cons.prems(2) by simp
  have sub_m: "set xs \<subseteq> set (url_slugs dm)"
    using xs nx by (auto simp: dm)
  have gx: "g x \<notin> set xs"
  proof
    assume "g x \<in> set xs"
    then have "g x \<in> set (url_slugs d)" using xs by blast
    from distinct_pk_eq[OF Cons.prems(2) this x] pk have "g x = x" by simp
    then show False using \<open>g x \<in> set xs\<close> nx by simp
  qed
  have "url_slugs d' = map (\<lambda>v. if v \<in> set xs then g v else v) (url_slugs dm)"
    by (rule Cons.IH[OF s2 dist_m sub_m dxs])
  also have "\<dots> = map (\<lambda>v. if v \<in> set (x # xs) then g v else v) (url_slugs d)"
    using gx nx by (auto simp: dm)
  finally show ?case .
qed

lemma distinct_filter_of_pks:
  "distinct (map slug_pk xs) \<Longrightarrow> distinct (filter P xs)"
  by (simp add: distinct_map)

lemma distinct_history: "distinct (map slug_pk (url_slugs d)) \<Longrightarrow> distinct (url_slug_history d c)"
  by (simp add: url_slug_history_def distinct_map)

text \<open>The loop over the official counterpart's records, lines 2002 to 2007.\<close>

lemma mark_official_entries_exact:
  assumes m: "mark_official_entries s off d = Inr d1" and dist: "distinct (map slug_pk (url_slugs d))"
  shows "url_slugs d1 = map (\<lambda>v. if slug_course v = off \<and> (is_active_on_draft v \<or> Some (url_slug v) = s)
                                 then v\<lparr>is_active_on_draft := (Some (url_slug v) = s)\<rparr> else v) (url_slugs d)"
    and "courses d1 = courses d"
proof -
  let ?L = "filter (\<lambda>u. is_active_on_draft u \<or> Some (url_slug u) = s) (url_slug_history d off)"
  let ?g = "\<lambda>x. x\<lparr>is_active_on_draft := (Some (url_slug x) = s)\<rparr>"
  have fe: "for_each (\<lambda>x d'. save_url_slug d' (?g x)) ?L d = Inr d1"
    using m by (simp add: mark_official_entries_def)
  have "url_slugs d1 = map (\<lambda>v. if v \<in> set ?L then ?g v else v) (url_slugs d)"
    by (rule for_each_save_exact[OF fe _ dist])
       (auto simp: in_history distinct_history[OF dist])
  also have "\<dots> = map (\<lambda>v. if slug_course v = off \<and> (is_active_on_draft v \<or> Some (url_slug v) = s)
                                 then ?g v else v) (url_slugs d)"
    by (rule map_cong) (auto simp: in_history)
  finally show "url_slugs d1 = map (\<lambda>v. if slug_course v = off \<and> (is_active_on_draft v \<or> Some (url_slug v) = s)
                                 then ?g v else v) (url_slugs d)" .
  show "courses d1 = courses d" by (rule for_each_save_courses[OF fe])
qed

lemma mark_entry_simps [simp]:
  "slug_course (mark_entry s off v) = slug_course v"
  "url_slug (mark_entry s off v) = url_slug v"
  "slug_pk (mark_entry s off v) = slug_pk v"
  "is_active (mark_entry s off v) = is_active v"
  "slug_partner (mark_entry s off v) = slug_partner v"
  by (simp_all add: mark_entry_def)

lemma mark_entry_flag:
  "slug_course v = off \<Longrightarrow> is_active_on_draft (mark_entry s off v) = (Some (url_slug v) = s)"
  by (simp add: mark_entry_def)

lemma mark_entry_other: "slug_course v \<noteq> off \<Longrightarrow> mark_entry s off v = v"
  by (simp add: mark_entry_def)

lemma mark_official_entries_slugs:
  assumes m: "mark_official_entries s off d = Inr d1" and dist: "distinct (map slug_pk (url_slugs d))"
  shows "url_slugs d1 = map (mark_entry s off) (url_slugs d)"
  using mark_official_entries_exact(1)[OF m dist] unfolding mark_entry_def .

lemma mark_official_entries_post:
  assumes m: "mark_official_entries s off d = Inr d1" and dist: "distinct (map slug_pk (url_slugs d))"
  shows "\<forall>u \<in> set (url_slug_history d1 off). is_active_on_draft u \<longleftrightarrow> Some (url_slug u) = s"
    and "map slug_pk (url_slugs d1) = map slug_pk (url_slugs d)"
    and "c \<noteq> off \<Longrightarrow> url_slug_history d1 c = url_slug_history d c"
    and "(\<exists>u \<in> set (url_slug_history d1 off). Some (url_slug u) = s) \<longleftrightarrow> found_in_official s off d"
proof -
  note ex = mark_official_entries_slugs[OF m dist]
  have hist: "\<And>c. url_slug_history d1 c = map (mark_entry s off) (url_slug_history d c)"
    by (simp add: url_slug_history_def ex filter_map comp_def)
  show "\<forall>u \<in> set (url_slug_history d1 off). is_active_on_draft u \<longleftrightarrow> Some (url_slug u) = s"
  proof
    fix u assume "u \<in> set (url_slug_history d1 off)"
    then obtain v where v: "v \<in> set (url_slug_history d off)" "u = mark_entry s off v"
      unfolding hist by auto
    then have "slug_course v = off" by (simp add: in_history)
    then show "is_active_on_draft u \<longleftrightarrow> Some (url_slug u) = s"
      using v(2) by (simp add: mark_entry_flag)
  qed
  show "map slug_pk (url_slugs d1) = map slug_pk (url_slugs d)"
    by (simp add: ex comp_def)
  show "url_slug_history d1 c = url_slug_history d c" if "c \<noteq> off"
    unfolding hist using that by (intro map_idI) (simp add: in_history mark_entry_other)
  show "(\<exists>u \<in> set (url_slug_history d1 off). Some (url_slug u) = s) \<longleftrightarrow> found_in_official s off d"
    unfolding found_in_official_def hist by simp
qed

lemma find_filter: "find P xs = (case filter P xs of [] \<Rightarrow> None | x # _ \<Rightarrow> Some x)"
  by (induction xs) auto

lemma truthy_Some: "truthy s \<Longrightarrow> (Some t = s) = (t = the s)"
  by (auto simp: truthy_def split: option.splits)

lemma update_or_create_active_post:
  assumes u: "update_or_create_active e self s d1 = Inr d2" and s: "truthy s"
  shows "find is_active (url_slug_history d1 (pk self)) = None \<Longrightarrow>
           url_slugs d2 = url_slugs d1 @
             [\<lparr>slug_pk = new_pk (map slug_pk (url_slugs d1)), slug_course = pk self,
               slug_partner = partner self, url_slug = the s, is_active = True, is_active_on_draft = False\<rparr>]"
    and "find is_active (url_slug_history d1 (pk self)) = Some a \<Longrightarrow>
           url_slugs d2 = map (\<lambda>v. if slug_pk v = slug_pk a
                                   then a\<lparr>slug_course := pk self, slug_partner := partner self,
                                          is_active := True, url_slug := the s\<rparr>
                                   else v) (url_slugs d1)"
    and "courses d2 = courses d1"
proof -
  show "url_slugs d2 = url_slugs d1 @
             [\<lparr>slug_pk = new_pk (map slug_pk (url_slugs d1)), slug_course = pk self,
               slug_partner = partner self, url_slug = the s, is_active = True, is_active_on_draft = False\<rparr>]"
    if "find is_active (url_slug_history d1 (pk self)) = None"
  proof -
    have "filter is_active (url_slug_history d1 (pk self)) = []"
      using that by (simp add: find_filter split: list.splits)
    then have "create_url_slug d1 \<lparr>slug_pk = 0, slug_course = pk self, slug_partner = partner self,
                 url_slug = the s, is_active = True, is_active_on_draft = False\<rparr> = Inr d2"
      using u s by (simp add: update_or_create_active_def)
    from create_url_slug_Inr[OF this] show ?thesis by simp
  qed
  show "url_slugs d2 = map (\<lambda>v. if slug_pk v = slug_pk a
                                   then a\<lparr>slug_course := pk self, slug_partner := partner self,
                                          is_active := True, url_slug := the s\<rparr>
                                   else v) (url_slugs d1)"
    if "find is_active (url_slug_history d1 (pk self)) = Some a"
  proof -
    have "\<exists>rest. filter is_active (url_slug_history d1 (pk self)) = a # rest"
      using that unfolding find_filter by (cases "filter is_active (url_slug_history d1 (pk self))") auto
    then obtain rest where "filter is_active (url_slug_history d1 (pk self)) = a # rest" ..
    moreover from this have "rest = []"
      using u by (auto simp: update_or_create_active_def split: list.splits)
    ultimately have "save_url_slug d1 (a\<lparr>slug_course := pk self, slug_partner := partner self,
                                          is_active := True, url_slug := the s\<rparr>) = Inr d2"
      using u s by (simp add: update_or_create_active_def)
    from save_url_slug_slugs[OF this] show ?thesis by simp
  qed
  show "courses d2 = courses d1"
    using u by (auto simp: update_or_create_active_def split: list.splits
        dest!: save_url_slug_Inr create_url_slug_Inr)
qed

text \<open>The draft branch split into its three outcomes.\<close>

lemma set_active_url_slug_draft_cases:
  assumes ok: "set_active_url_slug_draft e now d self s = Inr d'"
  obtains (no_official) d2 where "official_version (courses d) (pk self) = None"
      "update_or_create_active e self s d = Inr d2" "url_slugs d' = url_slugs d2"
    | (found) off d1 where "official_version (courses d) (pk self) = Some off"
      "mark_official_entries s (pk off) d = Inr d1" "found_in_official s (pk off) d"
      "url_slugs d' = (case find is_active (url_slug_history d (pk self)) of
                         None \<Rightarrow> url_slugs d1
                       | Some a \<Rightarrow> filter (\<lambda>u. slug_pk u \<noteq> slug_pk a) (url_slugs d1))"
    | (not_found) off d1 d2 where "official_version (courses d) (pk self) = Some off"
      "mark_official_entries s (pk off) d = Inr d1" "\<not> found_in_official s (pk off) d"
      "update_or_create_active e self s d1 = Inr d2" "url_slugs d' = url_slugs d2"
proof (cases "official_version (courses d) (pk self)")
  case None
  then obtain d2 where "update_or_create_active e self s d = Inr d2"
    and "d' = d2 \<or> d' = set_data_modified_timestamp now self d2"
    using ok by (auto simp: set_active_url_slug_draft_def Let_def split: sum.splits if_splits)
  then show ?thesis using None no_official by auto
next
  case (Some off)
  then obtain d1 where m: "mark_official_entries s (pk off) d = Inr d1"
    using ok by (auto simp: set_active_url_slug_draft_def Let_def split: sum.splits)
  show ?thesis
  proof (cases "found_in_official s (pk off) d")
    case True
    have "url_slugs d' = (case find is_active (url_slug_history d (pk self)) of
                         None \<Rightarrow> url_slugs d1
                       | Some a \<Rightarrow> filter (\<lambda>u. slug_pk u \<noteq> slug_pk a) (url_slugs d1))"
    proof (cases "find is_active (url_slug_history d (pk self))")
      case None
      then have "d' = d1"
        using ok Some m True by (simp add: set_active_url_slug_draft_def Let_def)
      then show ?thesis using None by simp
    next
      case act: (Some a)
      then have "d' = delete_url_slugs (\<lambda>u. slug_pk u = slug_pk a)
                       (if Some (url_slug a) \<noteq> s then set_data_modified_timestamp now self d1 else d1)"
        using ok Some m True by (simp add: set_active_url_slug_draft_def Let_def)
      then show ?thesis using act by simp
    qed
    then show ?thesis using found[OF Some m True] by blast
  next
    case False
    then obtain d2 where "update_or_create_active e self s d1 = Inr d2"
      and "d' = d2 \<or> d' = set_data_modified_timestamp now self d2"
      using ok Some m by (auto simp: set_active_url_slug_draft_def Let_def split: sum.splits if_splits)
    then show ?thesis using not_found[OF Some m False] by auto
  qed
qed

lemma official_is_other:
  assumes "official_version (courses d) (pk self) = Some off"
    and "\<forall>c \<in> set (courses d). draft_version c \<noteq> Some (pk c)"
  shows "pk off \<noteq> pk self"
proof -
  have "off \<in> set (courses d)" "draft_version off = Some (pk self)"
    using assms(1) by (auto simp: official_version_def dest: find_SomeD)
  then show ?thesis using assms(2) by auto
qed

text \<open>
  Claim C6, as the code has it. Let a draft course activate a non-empty slug text and the
  call succeed, in a store whose slug records have distinct primary keys and where no
  course row is its own draft. Only the history of the official counterpart is searched
  for the text; the draft's own history is not.
  \<^item> With a counterpart, afterwards exactly its records with that text are flagged
    active on the draft.
  \<^item> If the counterpart's history holds the text: no record is created, a record of the
    counterpart with the text is flagged active on the draft, and the draft's own active
    record, if it had one, is deleted.
  \<^item> Otherwise: the draft's own active record, if it has one, is overwritten in place
    with the new text; if it has none, one record is added, of the draft course, with the
    text, flagged \<^verbatim>\<open>is_active\<close> and not \<^verbatim>\<open>is_active_on_draft\<close>.
\<close>

theorem draft_activation:
  assumes dr: "draft self" and s: "truthy s"
    and dist: "distinct (map slug_pk (url_slugs d))"
    and nself: "\<forall>c \<in> set (courses d). draft_version c \<noteq> Some (pk c)"
    and ok: "set_active_url_slug e now d self s = Inr d'"
  shows "(\<forall>off. official_version (courses d) (pk self) = Some off \<longrightarrow>
            (\<forall>u \<in> set (url_slug_history d' (pk off)). is_active_on_draft u \<longleftrightarrow> url_slug u = the s))
       \<and> ((\<exists>off. official_version (courses d) (pk self) = Some off
                 \<and> (\<exists>u \<in> set (url_slug_history d (pk off)). url_slug u = the s)) \<longrightarrow>
            set (map slug_pk (url_slugs d')) \<subseteq> set (map slug_pk (url_slugs d))
          \<and> (\<exists>off. official_version (courses d) (pk self) = Some off
                 \<and> (\<exists>u \<in> set (url_slug_history d' (pk off)). url_slug u = the s \<and> is_active_on_draft u))
          \<and> (\<forall>a. find is_active (url_slug_history d (pk self)) = Some a \<longrightarrow>
                 slug_pk a \<notin> set (map slug_pk (url_slugs d'))))
       \<and> (\<not> (\<exists>off. official_version (courses d) (pk self) = Some off
                 \<and> (\<exists>u \<in> set (url_slug_history d (pk off)). url_slug u = the s)) \<longrightarrow>
            (\<forall>a. find is_active (url_slug_history d (pk self)) = Some a \<longrightarrow>
                 map slug_pk (url_slugs d') = map slug_pk (url_slugs d)
               \<and> a\<lparr>slug_course := pk self, slug_partner := partner self, is_active := True,
                     url_slug := the s\<rparr> \<in> set (url_slug_history d' (pk self)))
          \<and> (find is_active (url_slug_history d (pk self)) = None \<longrightarrow>
                 (\<exists>n \<in> set (url_slug_history d' (pk self)).
                     slug_pk n \<notin> set (map slug_pk (url_slugs d)) \<and> url_slug n = the s
                   \<and> is_active n \<and> \<not> is_active_on_draft n
                   \<and> set (map slug_pk (url_slugs d')) = insert (slug_pk n) (set (map slug_pk (url_slugs d))))))"
    (is "?flags \<and> (?found \<longrightarrow> ?F) \<and> (\<not> ?found \<longrightarrow> ?N)")
proof -
  have ok': "set_active_url_slug_draft e now d self s = Inr d'"
    using ok dr by (auto simp: set_active_url_slug_def split: if_splits)
  have found_iff: "\<And>off. found_in_official s (pk off) d \<longleftrightarrow> (\<exists>u \<in> set (url_slug_history d (pk off)). url_slug u = the s)"
    by (simp add: found_in_official_def truthy_Some[OF s])
  \<comment> \<open>what case 2 leaves behind, given the store \<open>d1\<close> it starts from\<close>
  have case2: "?N \<and> (\<forall>c. c \<noteq> pk self \<longrightarrow> set (url_slug_history d' c) \<subseteq> set (url_slug_history d1 c))"
    if u: "update_or_create_active e self s d1 = Inr d2" and d': "url_slugs d' = url_slugs d2"
      and own: "url_slug_history d1 (pk self) = url_slug_history d (pk self)"
      and pks: "map slug_pk (url_slugs d1) = map slug_pk (url_slugs d)" for d1 d2
  proof -
    note post = update_or_create_active_post[OF u s]
    have upd: "map slug_pk (url_slugs d') = map slug_pk (url_slugs d)
               \<and> a\<lparr>slug_course := pk self, slug_partner := partner self, is_active := True,
                     url_slug := the s\<rparr> \<in> set (url_slug_history d' (pk self))
               \<and> (\<forall>c. c \<noteq> pk self \<longrightarrow> set (url_slug_history d' c) \<subseteq> set (url_slug_history d1 c))"
      if a: "find is_active (url_slug_history d (pk self)) = Some a" for a
    proof -
      let ?a' = "a\<lparr>slug_course := pk self, slug_partner := partner self, is_active := True, url_slug := the s\<rparr>"
      have rows: "url_slugs d' = map (\<lambda>v. if slug_pk v = slug_pk a then ?a' else v) (url_slugs d1)"
        using post(2)[of a] a own d' by simp
      have "a \<in> set (url_slugs d1)"
        using find_SomeD[OF a] own[symmetric] by (simp add: in_history)
      then have "?a' \<in> set (url_slugs d')" unfolding rows by force
      moreover have "map slug_pk (url_slugs d') = map slug_pk (url_slugs d)"
        unfolding rows using pks by (simp add: comp_def if_distrib cong: if_cong)
      moreover have "\<forall>c. c \<noteq> pk self \<longrightarrow> set (url_slug_history d' c) \<subseteq> set (url_slug_history d1 c)"
        by (auto simp: in_history rows split: if_splits)
      ultimately show ?thesis by (simp add: in_history)
    qed
    have new: "(\<exists>n \<in> set (url_slug_history d' (pk self)).
                     slug_pk n \<notin> set (map slug_pk (url_slugs d)) \<and> url_slug n = the s
                   \<and> is_active n \<and> \<not> is_active_on_draft n
                   \<and> set (map slug_pk (url_slugs d')) = insert (slug_pk n) (set (map slug_pk (url_slugs d))))
               \<and> (\<forall>c. c \<noteq> pk self \<longrightarrow> set (url_slug_history d' c) \<subseteq> set (url_slug_history d1 c))"
      if a: "find is_active (url_slug_history d (pk self)) = None"
    proof -
      define n where "n = \<lparr>slug_pk = new_pk (map slug_pk (url_slugs d1)), slug_course = pk self,
               slug_partner = partner self, url_slug = the s, is_active = True, is_active_on_draft = False\<rparr>"
      have rows: "url_slugs d' = url_slugs d1 @ [n]"
        using post(1) a own d' by (simp add: n_def)
      have "slug_pk n \<notin> set (map slug_pk (url_slugs d))"
        using new_pk_fresh[of _ "map slug_pk (url_slugs d1)"] pks by (auto simp: n_def)
      moreover have "n \<in> set (url_slug_history d' (pk self))"
        by (simp add: in_history rows) (simp add: n_def)
      moreover have "set (map slug_pk (url_slugs d')) = insert (slug_pk n) (set (map slug_pk (url_slugs d)))"
        using pks by (simp add: rows)
      moreover have "url_slug n = the s \<and> is_active n \<and> \<not> is_active_on_draft n"
        by (simp add: n_def)
      moreover have "\<forall>c. c \<noteq> pk self \<longrightarrow> set (url_slug_history d' c) \<subseteq> set (url_slug_history d1 c)"
        by (auto simp: in_history rows n_def)
      ultimately show ?thesis by blast
    qed
    show ?thesis using upd new by (cases "find is_active (url_slug_history d (pk self))") auto
  qed
  from ok' show ?thesis
  proof (cases rule: set_active_url_slug_draft_cases)
    case (no_official d2)
    have "?N" using case2[OF no_official(2,3)] by simp
    then show ?thesis using no_official(1) by simp
  next
    case (found off d1)
    note post = mark_official_entries_post[OF found(2) dist]
    note rows1 = mark_official_entries_slugs[OF found(2) dist]
    have other: "pk off \<noteq> pk self" by (rule official_is_other[OF found(1) nself])
    have sub: "set (url_slugs d') \<subseteq> set (url_slugs d1)"
      using found(4) by (auto split: option.splits)
    have flags: "\<forall>u \<in> set (url_slug_history d' (pk off)). is_active_on_draft u \<longleftrightarrow> url_slug u = the s"
      using post(1) sub by (auto simp: in_history truthy_Some[OF s])
    have f: "?found" using found(1,3) found_iff by blast
    have nocreate: "set (map slug_pk (url_slugs d')) \<subseteq> set (map slug_pk (url_slugs d))"
    proof -
      have "set (map slug_pk (url_slugs d')) \<subseteq> set (map slug_pk (url_slugs d1))" using sub by auto
      then show ?thesis using post(2) by simp
    qed
    obtain v where v: "v \<in> set (url_slug_history d (pk off))" "url_slug v = the s"
      using found(3) found_iff by blast
    have survive: "mark_entry s (pk off) v \<in> set (url_slugs d')"
    proof (cases "find is_active (url_slug_history d (pk self))")
      case None
      then show ?thesis using found(4) v(1) by (simp add: rows1 in_history)
    next
      case (Some a)
      then have a: "a \<in> set (url_slugs d)" "slug_course a = pk self"
        using find_SomeD[OF Some] by (auto simp: in_history)
      have "slug_pk v \<noteq> slug_pk a"
      proof
        assume "slug_pk v = slug_pk a"
        then have "v = a" using distinct_pk_eq[OF dist _ a(1)] v(1) by (simp add: in_history)
        then show False using a(2) v(1) other by (simp add: in_history)
      qed
      then show ?thesis using found(4) v(1) Some by (simp add: rows1 in_history)
    qed
    have react: "\<exists>u \<in> set (url_slug_history d' (pk off)). url_slug u = the s \<and> is_active_on_draft u"
    proof -
      have "mark_entry s (pk off) v \<in> set (url_slug_history d' (pk off))"
        using survive v(1) by (simp add: in_history)
      moreover have "url_slug (mark_entry s (pk off) v) = the s" using v(2) by simp
      ultimately show ?thesis using flags by blast
    qed
    have retired: "\<forall>a. find is_active (url_slug_history d (pk self)) = Some a \<longrightarrow>
                 slug_pk a \<notin> set (map slug_pk (url_slugs d'))"
      using found(4) by auto
    have "?F" using nocreate react retired found(1) by blast
    moreover have "?flags" using flags found(1) by simp
    ultimately show ?thesis using f by blast
  next
    case (not_found off d1 d2)
    note post = mark_official_entries_post[OF not_found(2) dist]
    have other: "pk off \<noteq> pk self" by (rule official_is_other[OF not_found(1) nself])
    have own: "url_slug_history d1 (pk self) = url_slug_history d (pk self)"
      using post(3)[of "pk self"] other by simp
    note c2 = case2[OF not_found(4,5) own post(2)]
    have nf: "\<not> ?found" using not_found(1,3) found_iff by auto
    have "set (url_slug_history d' (pk off)) \<subseteq> set (url_slug_history d1 (pk off))"
      using c2 other by blast
    then have "\<forall>u \<in> set (url_slug_history d' (pk off)). is_active_on_draft u \<longleftrightarrow> url_slug u = the s"
      using post(1) by (auto simp: truthy_Some[OF s])
    then have "?flags" using not_found(1) by simp
    then show ?thesis using c2 nf by blast
  qed
qed

text \<open>
  Against the claim as stated. In \<open>draft_history_db\<close> the text is in the draft's own
  history, yet the record is not reactivated: the code goes on to create a second record
  with the same text, which the table's uniqueness constraint rejects. In
  \<open>lone_draft_db\<close> the text is new, and the record created is flagged
  \<^verbatim>\<open>is_active\<close>, not \<^verbatim>\<open>is_active_on_draft\<close>.
\<close>

theorem draft_activation_counterexample:
  "(\<exists>u \<in> set (url_slug_history draft_history_db 1). url_slug u = ''intro'')
   \<and> set_active_url_slug example_env 0 draft_history_db (mk_course 1 True None ''course-v1:X+1'') (Some ''intro'')
       = Inl UniqueViolation
   \<and> (\<exists>d'. set_active_url_slug example_env 0 lone_draft_db (mk_course 1 True None ''course-v1:X+1'') (Some ''intro'') = Inr d'
          \<and> url_slugs d' = [mk_slug 1 1 ''intro'' True False])"
  by (simp add: ex_defs slug_defs del: set_filter)

text \<open>
  The draft of \<open>paired_db\<close> returns to \<open>intro101\<close>, found on its official row; the
  draft of \<open>lone_draft_db\<close> gets its first record.
\<close>

theorem draft_activation_witness:
  "draft (mk_course 1 True None ''course-v1:X+1'')
   \<and> truthy (Some ''intro101'')
   \<and> distinct (map slug_pk (url_slugs paired_db))
   \<and> \<not> (\<exists>c \<in> set (courses paired_db). draft_version c = Some (pk c))
   \<and> official_version (courses paired_db) 1 = Some (mk_course 2 False (Some 1) ''course-v1:X+1'')
   \<and> (\<exists>u \<in> set (url_slug_history paired_db 2). url_slug u = ''intro101'')
   \<and> (\<exists>d'. set_active_url_slug example_env 0 paired_db (mk_course 1 True None ''course-v1:X+1'') (Some ''intro101'') = Inr d'
          \<and> set (map slug_pk (url_slugs d')) \<subseteq> set (map slug_pk (url_slugs paired_db))
          \<and> (\<exists>u \<in> set (url_slug_history d' 2). url_slug u = ''intro101'' \<and> is_active_on_draft u))
   \<and> truthy (Some ''intro'')
   \<and> official_version (courses lone_draft_db) 1 = None
   \<and> find is_active (url_slug_history lone_draft_db 1) = None
   \<and> (\<exists>d'. set_active_url_slug example_env 0 lone_draft_db (mk_course 1 True None ''course-v1:X+1'') (Some ''intro'') = Inr d'
          \<and> (\<exists>n \<in> set (url_slug_history d' 1). url_slug n = ''intro'' \<and> is_active n \<and> \<not> is_active_on_draft n))"
proof -
  let ?c = "mk_course 1 True None ''course-v1:X+1''"
  have dr: "draft ?c" and p: "pk ?c = 1" by (simp_all add: ex_defs)
  have t1: "truthy (Some ''intro101'')" and t2: "truthy (Some ''intro'')" by (simp_all add: truthy_def)
  have d1: "distinct (map slug_pk (url_slugs paired_db))" and d2: "distinct (map slug_pk (url_slugs lone_draft_db))"
    by (simp_all add: ex_defs)
  have n1: "\<forall>c \<in> set (courses paired_db). draft_version c \<noteq> Some (pk c)"
    and n2: "\<forall>c \<in> set (courses lone_draft_db). draft_version c \<noteq> Some (pk c)"
    by (simp_all add: ex_defs)
  have o1: "official_version (courses paired_db) 1 = Some (mk_course 2 False (Some 1) ''course-v1:X+1'')"
    and f1: "\<exists>u \<in> set (url_slug_history paired_db 2). url_slug u = ''intro101''"
    and o2: "official_version (courses lone_draft_db) 1 = None"
    and a2: "find is_active (url_slug_history lone_draft_db 1) = None"
    by (simp_all add: ex_defs official_version_def url_slug_history_def del: set_filter)
  have p2: "pk (mk_course 2 False (Some 1) ''course-v1:X+1'') = 2" by (simp add: ex_defs)
  obtain r1 where r1: "set_active_url_slug example_env 0 paired_db ?c (Some ''intro101'') = Inr r1"
    by (simp add: ex_defs slug_defs del: set_filter)
  obtain r2 where r2: "set_active_url_slug example_env 0 lone_draft_db ?c (Some ''intro'') = Inr r2"
    by (simp add: ex_defs slug_defs del: set_filter)
  from draft_activation[OF dr t1 d1 n1 r1, unfolded p] o1 f1 p2
  have w1: "set (map slug_pk (url_slugs r1)) \<subseteq> set (map slug_pk (url_slugs paired_db))
          \<and> (\<exists>u \<in> set (url_slug_history r1 2). url_slug u = ''intro101'' \<and> is_active_on_draft u)"
    by auto
  from draft_activation[OF dr t2 d2 n2 r2, unfolded p] o2 a2
  have w2: "\<exists>n \<in> set (url_slug_history r2 1). url_slug n = ''intro'' \<and> is_active n \<and> \<not> is_active_on_draft n"
    by auto
  show ?thesis
    using dr t1 t2 d1 n1 o1 f1 o2 a2 r1 r2 w1 w2 by auto
qed

subsection \<open>Saves that trigger nothing\<close>

lemma handle_status_change_same:
  "old = status self \<Longrightarrow> handle_status_change e now send_emails old self d = Inr (d, [])"
  by (simp add: handle_status_change.simps)

lemma handle_status_change_official:
  "\<not> draft self \<Longrightarrow> handle_status_change e now send_emails old self d = Inr (d, [])"
  by (simp add: handle_status_change.simps)

lemma handle_status_change_unpublished:
  "status self = Unpublished \<Longrightarrow> handle_status_change e now send_emails old self d = Inr (d, [])"
  by (simp add: handle_status_change.simps)

lemma save_run_unpublished:
  "status self = Unpublished \<Longrightarrow>
     save_run e now send_emails old False self d =
       (case push_to_marketing e d self of
          Inl err \<Rightarrow> Inl err
        | Inr push \<Rightarrow> Inr (d\<lparr>course_runs := put self (course_runs d)\<rparr>, []))"
  by (simp add: save_run.simps handle_status_change_unpublished Let_def split: sum.splits)

lemma save_run_official:
  "\<not> draft self \<Longrightarrow>
     save_run e now send_emails old False self d =
       (case push_to_marketing e d self of
          Inl err \<Rightarrow> Inl err
        | Inr push \<Rightarrow> Inr (d\<lparr>course_runs := put self (course_runs d)\<rparr>, []))"
  by (simp add: save_run.simps handle_status_change_official Let_def split: sum.splits)

lemma save_run_same:
  "old = status self \<Longrightarrow>
     save_run e now send_emails old False self d =
       (case push_to_marketing e d self of
          Inl err \<Rightarrow> Inl err
        | Inr push \<Rightarrow> Inr (d\<lparr>course_runs := put self (course_runs d)\<rparr>, []))"
  by (simp add: save_run.simps handle_status_change_same Let_def split: sum.splits)

text \<open>A save that returns has passed the check of the marketing flag.\<close>

lemma save_run_Inr:
  "save_run e now send_emails old end_changed self d = Inr x \<Longrightarrow> \<exists>push. push_to_marketing e d self = Inr push"
  by (simp add: save_run.simps split: sum.splits)

lemma could_be_marketable_err: "could_be_marketable e r = Inl err \<Longrightarrow> err = InvalidKeyError"
  by (auto simp: could_be_marketable_def split: if_splits option.splits bool.splits)

lemma could_be_marketable_official: "could_be_marketable e r = Inr True \<Longrightarrow> \<not> draft r"
  by (auto simp: could_be_marketable_def split: if_splits option.splits bool.splits)

lemma marketable_runs_Inr:
  "marketable_runs e rs = Inr ms \<Longrightarrow>
     ms = filter (\<lambda>r. could_be_marketable e r = Inr True) rs
     \<and> (\<forall>r \<in> set rs. \<exists>b. could_be_marketable e r = Inr b)"
proof (induction rs arbitrary: ms)
  case Nil
  then show ?case by simp
next
  case (Cons r rs)
  from Cons.prems obtain b ms' where b: "could_be_marketable e r = Inr b"
    and ms': "marketable_runs e rs = Inr ms'" and ms: "ms = (if b then r # ms' else ms')"
    by (auto split: sum.splits)
  from Cons.IH[OF ms'] show ?case using b ms by auto
qed

lemma marketable_runs_Inl:
  "marketable_runs e rs = Inl err \<Longrightarrow> err = InvalidKeyError \<and> (\<exists>r \<in> set rs. could_be_marketable e r = Inl InvalidKeyError)"
proof (induction rs)
  case Nil
  then show ?case by simp
next
  case (Cons r rs)
  then show ?case by (auto split: sum.splits dest: could_be_marketable_err)
qed

lemma marketable_runs_total:
  "\<forall>r \<in> set rs. \<exists>b. could_be_marketable e r = Inr b \<Longrightarrow>
     marketable_runs e rs = Inr (filter (\<lambda>r. could_be_marketable e r = Inr True) rs)"
  by (induction rs) auto

subsection \<open>Tables with distinct keys\<close>

lemma pk_eq: "distinct (map pk tbl) \<Longrightarrow> a \<in> set tbl \<Longrightarrow> b \<in> set tbl \<Longrightarrow> pk a = pk b \<Longrightarrow> a = b"
  by (meson distinct_map inj_onD)

lemma get_pk_Some: "get_pk tbl p = Some r \<Longrightarrow> r \<in> set tbl \<and> pk r = p"
  by (auto simp: get_pk_def dest: find_SomeD)

lemma get_pk_member: "distinct (map pk tbl) \<Longrightarrow> r \<in> set tbl \<Longrightarrow> get_pk tbl (pk r) = Some r"
proof (induction tbl)
  case Nil
  then show ?case by simp
next
  case (Cons a tbl)
  then show ?case by (auto simp: get_pk_def)
qed

lemma put_self: "distinct (map pk tbl) \<Longrightarrow> r \<in> set tbl \<Longrightarrow> put r tbl = tbl"
  unfolding put_def by (rule map_idI) (auto dest: pk_eq)

lemma map_pk_put: "pk obj = p \<Longrightarrow> map pk (put obj tbl) = map pk tbl"
  by (simp add: put_def comp_def if_distrib cong: if_cong)

subsection \<open>The loop of the sweep\<close>

lemma map_pk_unpublish_rows [simp]: "map pk (unpublish_rows A rows) = map pk rows"
  by (simp add: unpublish_rows_def comp_def if_distrib cong: if_cong)

lemma get_pk_unpublish_rows:
  "get_pk (unpublish_rows A rows) p =
     map_option (\<lambda>r. if pk r \<in> A then r\<lparr>status := Unpublished\<rparr> else r) (get_pk rows p)"
  by (induction rows) (auto simp: get_pk_def unpublish_rows_def)

lemma put_unpublish_rows:
  assumes "distinct (map pk rows)" and "r \<in> set rows"
  shows "put (r\<lparr>status := Unpublished\<rparr>) (unpublish_rows A rows) = unpublish_rows (insert (pk r) A) rows"
proof -
  have "\<And>x. x \<in> set rows \<Longrightarrow> pk x = pk r \<Longrightarrow> x = r"
    using pk_eq[OF assms(1) _ assms(2)] by blast
  then show ?thesis
    unfolding put_def unpublish_rows_def by (auto simp: comp_def)
qed

lemma put_unpublish_rows_again:
  assumes "distinct (map pk rows)" and "r \<in> set rows"
  shows "put ((if pk r \<in> A then r\<lparr>status := Unpublished\<rparr> else r)\<lparr>status := Unpublished\<rparr>) (unpublish_rows A rows)
           = unpublish_rows (insert (pk r) A) rows"
  using put_unpublish_rows[OF assms, of A] by (cases "pk r \<in> A") simp_all

lemma sweep_body_step:
  assumes dist: "distinct (map pk rows)" and run: "run \<in> set rows"
    and rows: "course_runs d0 = unpublish_rows A rows"
    and ok: "sweep_body e now run (d0, log0) = Inr (d', log')"
  shows "d' = d0\<lparr>course_runs := unpublish_rows (A \<union> {pk run} \<union> {p. draft_version run = Some p}) rows\<rparr>
         \<and> log' = log0"
proof -
  let ?d1 = "d0\<lparr>course_runs := unpublish_rows (insert (pk run) A) rows\<rparr>"
  from ok obtain x where "save_run e now True (status run) False (run\<lparr>status := Unpublished\<rparr>) d0 = Inr x"
    by (auto simp: sweep_body_def split: sum.splits)
  then have s1: "save_run e now True (status run) False (run\<lparr>status := Unpublished\<rparr>) d0 = Inr (?d1, [])"
    by (auto simp: save_run_unpublished rows put_unpublish_rows[OF dist run] split: sum.splits)
  show ?thesis
  proof (cases "draft_version run")
    case None
    then show ?thesis using ok s1 by (simp add: sweep_body_def)
  next
    case (Some dv)
    then obtain dr where dr: "get_pk (course_runs ?d1) dv = Some dr"
      using ok s1 by (auto simp: sweep_body_def split: option.splits)
    then obtain orig where orig: "get_pk rows dv = Some orig"
      and dr_eq: "dr = (if pk orig \<in> insert (pk run) A then orig\<lparr>status := Unpublished\<rparr> else orig)"
      by (auto simp: get_pk_unpublish_rows)
    have o: "orig \<in> set rows" "pk orig = dv" using get_pk_Some[OF orig] by auto
    from ok s1 Some dr obtain y where
      "save_run e now True (status dr) False (dr\<lparr>status := Unpublished\<rparr>) ?d1 = Inr y"
      by (auto simp: sweep_body_def split: sum.splits)
    then have "save_run e now True (status dr) False (dr\<lparr>status := Unpublished\<rparr>) ?d1
            = Inr (?d1\<lparr>course_runs := unpublish_rows (insert dv (insert (pk run) A)) rows\<rparr>, [])"
      using put_unpublish_rows_again[OF dist o(1), of "insert (pk run) A"] o(2)
      by (auto simp: save_run_unpublished dr_eq split: sum.splits)
    moreover have "A \<union> {pk run} \<union> {p. draft_version run = Some p} = insert dv (insert (pk run) A)"
      using Some by auto
    ultimately show ?thesis using ok s1 Some dr by (simp add: sweep_body_def)
  qed
qed

lemma sweep_loop:
  assumes dist: "distinct (map pk rows)"
  shows "set xs \<subseteq> set rows \<Longrightarrow> course_runs d0 = unpublish_rows A rows
       \<Longrightarrow> for_each (sweep_body e now) xs (d0, log0) = Inr (d', log')
       \<Longrightarrow> d' = d0\<lparr>course_runs := unpublish_rows (A \<union> pk ` set xs \<union> {p. \<exists>x \<in> set xs. draft_version x = Some p}) rows\<rparr>
           \<and> log' = log0"
proof (induction xs arbitrary: d0 A log0)
  case Nil
  then show ?case by simp
next
  case (Cons x xs)
  from Cons.prems(3) obtain dm logm where b: "sweep_body e now x (d0, log0) = Inr (dm, logm)"
    and r: "for_each (sweep_body e now) xs (dm, logm) = Inr (d', log')"
    by (auto split: sum.splits)
  have x: "x \<in> set rows" and xs: "set xs \<subseteq> set rows" using Cons.prems(1) by auto
  from sweep_body_step[OF dist x Cons.prems(2) b]
  have dm: "dm = d0\<lparr>course_runs := unpublish_rows (A \<union> {pk x} \<union> {p. draft_version x = Some p}) rows\<rparr>"
    and lm: "logm = log0" by auto
  have rows_m: "course_runs dm = unpublish_rows (A \<union> {pk x} \<union> {p. draft_version x = Some p}) rows"
    by (simp add: dm)
  from Cons.IH[OF xs rows_m r]
  have "d' = dm\<lparr>course_runs := unpublish_rows ((A \<union> {pk x} \<union> {p. draft_version x = Some p})
                  \<union> pk ` set xs \<union> {p. \<exists>x \<in> set xs. draft_version x = Some p}) rows\<rparr>"
    and "log' = logm" by auto
  moreover have "(A \<union> {pk x} \<union> {p. draft_version x = Some p}) \<union> pk ` set xs \<union> {p. \<exists>x \<in> set xs. draft_version x = Some p}
       = A \<union> pk ` set (x # xs) \<union> {p. \<exists>y \<in> set (x # xs). draft_version y = Some p}"
    by auto
  ultimately show ?case using lm by (simp add: dm)
qed

lemma distinct_by_pk_id: "distinct (map pk xs) \<Longrightarrow> distinct_by_pk xs = xs"
proof (induction xs)
  case Nil
  then show ?case by simp
next
  case (Cons a xs)
  then have "pk a \<notin> pk ` set xs" by simp
  then have "\<forall>x \<in> set xs. pk x \<noteq> pk a"
    by (metis imageI)
  then have "filter (\<lambda>x. pk x \<noteq> pk a) xs = xs"
    by (rule filter_True)
  then show ?case using Cons by simp
qed

lemma unpublish_rows_empty [simp]: "unpublish_rows {} rows = rows"
  by (simp add: unpublish_rows_def)

lemma sweep_body_eq:
  "(\<lambda>run (d0, log0).
                         case save_run e now True (status run) False (run\<lparr>status := Unpublished\<rparr>) d0 of
                           Inl err \<Rightarrow> Inl err
                         | Inr (d1, log1) \<Rightarrow>
                             (case draft_version run of
                                None \<Rightarrow> Inr (d1, log0 @ log1)
                              | Some dv \<Rightarrow>
                                  (case get_pk (course_runs d1) dv of
                                     None \<Rightarrow> Inl DoesNotExist
                                   | Some dr \<Rightarrow>
                                       (case save_run e now True (status dr) False
                                               (dr\<lparr>status := Unpublished\<rparr>) d1 of
                                          Inl err \<Rightarrow> Inl err
                                        | Inr (d2, log2) \<Rightarrow> Inr (d2, log0 @ log1 @ log2))))) = sweep_body e now"
  by (simp add: sweep_body_def)

lemma not_in_filtered:
  assumes dp: "distinct (map pk xs)" and r: "r \<in> set xs"
  shows "(pk r \<notin> set (map pk (filter P xs))) = (\<not> P r)"
proof
  assume "pk r \<notin> set (map pk (filter P xs))"
  then have "r \<notin> set (filter P xs)" by auto
  then show "\<not> P r" using r by simp
next
  assume n: "\<not> P r"
  show "pk r \<notin> set (map pk (filter P xs))"
  proof
    assume "pk r \<in> set (map pk (filter P xs))"
    then obtain x where x: "x \<in> set xs" "P x" "pk x = pk r" by auto
    from pk_eq[OF dp x(1) r x(3)] have "x = r" .
    then show False using x(2) n by simp
  qed
qed

lemma unpublish_inactive_runs_unfold:
  fixes d :: db and self :: course and e :: env and now :: int
  assumes dist: "distinct (map pk (course_runs d))"
  defines "published \<equiv> filter (\<lambda>r. run_course r = pk self \<and> status r = Published) (course_runs d)"
  defines "inactive \<equiv> filter (has_enrollment_ended now) published"
  defines "candidates \<equiv> filter (\<lambda>r. \<not> has_enrollment_ended now r) published"
  shows "unpublish_inactive_runs e now self None d =
           (if partner self \<notin> set (marketing_site_partners d) then Inr (d, [], False)
            else (case marketable_runs e candidates of
                    Inl err \<Rightarrow> Inl err
                  | Inr marketable \<Rightarrow>
                      if marketable = [] \<or> inactive = [] then Inr (d, [], False)
                      else (case for_each (sweep_body e now) inactive (d, []) of
                              Inl err \<Rightarrow> Inl err
                            | Inr (d', log) \<Rightarrow> Inr (d', log, True))))"
proof -
  have dp: "distinct (map pk published)"
    unfolding published_def using dist by (rule distinct_map_filter)
  have id: "distinct_by_pk published = published" by (rule distinct_by_pk_id[OF dp])
  have m: "filter (\<lambda>r. pk r \<notin> set (map pk inactive)) published = candidates"
    unfolding candidates_def inactive_def
    by (rule filter_cong[OF refl]) (simp only: not_in_filtered[OF dp])
  have "unpublish_inactive_runs e now self None d =
          (if partner self \<notin> set (marketing_site_partners d) then Inr (d, [], False)
           else (let pub = distinct_by_pk published;
                     inact = filter (has_enrollment_ended now) pub
                 in case marketable_runs e (filter (\<lambda>r. pk r \<notin> set (map pk inact)) pub) of
                      Inl err \<Rightarrow> Inl err
                    | Inr marketable \<Rightarrow>
                        if marketable = [] \<or> inact = [] then Inr (d, [], False)
                        else (case for_each (sweep_body e now) inact (d, []) of
                                Inl err \<Rightarrow> Inl err
                              | Inr (d', log) \<Rightarrow> Inr (d', log, True))))"
    unfolding unpublish_inactive_runs.simps[of e now self None d] sweep_body_eq published_def
    by simp
  also have "\<dots> = (if partner self \<notin> set (marketing_site_partners d) then Inr (d, [], False)
            else (case marketable_runs e candidates of
                    Inl err \<Rightarrow> Inl err
                  | Inr marketable \<Rightarrow>
                      if marketable = [] \<or> inactive = [] then Inr (d, [], False)
                      else (case for_each (sweep_body e now) inactive (d, []) of
                              Inl err \<Rightarrow> Inl err
                            | Inr (d', log) \<Rightarrow> Inr (d', log, True))))"
    unfolding id Let_def inactive_def[symmetric] m ..
  finally show ?thesis .
qed

text \<open>
  What the sweep does guarantee, with the test it makes: \<^verbatim>\<open>could_be_marketable\<close>. Take
  the published runs of a course, call inactive those whose enrollment deadline has passed
  and candidates the others, in a store where course runs have distinct primary keys and
  the \<^verbatim>\<open>draft_version\<close> of a run is a draft row, for a partner with a marketing site. If
  the key of a candidate of a marketable type does not parse, the sweep raises. Otherwise,
  if no candidate could be marketable or no run is inactive, it returns \<open>False\<close>.
  Whenever it returns \<open>False\<close> the store is as before; when it returns \<open>True\<close>, the store
  differs only in that the inactive runs and their draft rows have status
  \<open>Unpublished\<close>; it sends nothing; and if the course had a published run that could be
  marketable before, it has one after.
\<close>

lemma unpublish_inactive_runs_could_be_floor:
  fixes d :: db and self :: course and e :: env and now :: int
  defines "published \<equiv> filter (\<lambda>r. run_course r = pk self \<and> status r = Published) (course_runs d)"
  defines "inactive \<equiv> filter (has_enrollment_ended now) published"
  defines "candidates \<equiv> filter (\<lambda>r. \<not> has_enrollment_ended now r) published"
  assumes dist: "distinct (map pk (course_runs d))"
    and drafts: "\<forall>r \<in> set (course_runs d). \<forall>x \<in> set (course_runs d). draft_version r = Some (pk x) \<longrightarrow> draft x"
  shows "(partner self \<in> set (marketing_site_partners d)
            \<and> (\<exists>r \<in> set candidates. could_be_marketable e r = Inl InvalidKeyError) \<longrightarrow>
            unpublish_inactive_runs e now self None d = Inl InvalidKeyError)
       \<and> ((\<forall>r \<in> set candidates. could_be_marketable e r \<noteq> Inl InvalidKeyError)
            \<and> ((\<forall>r \<in> set candidates. could_be_marketable e r \<noteq> Inr True) \<or> inactive = []) \<longrightarrow>
            unpublish_inactive_runs e now self None d = Inr (d, [], False))
       \<and> (\<forall>d' log b. unpublish_inactive_runs e now self None d = Inr (d', log, b) \<longrightarrow>
            log = []
          \<and> (\<not> b \<longrightarrow> d' = d)
          \<and> (b \<longrightarrow> d' = d\<lparr>course_runs :=
                          unpublish_rows (pk ` set inactive \<union> {p. \<exists>x \<in> set inactive. draft_version x = Some p})
                            (course_runs d)\<rparr>)
          \<and> ((\<exists>r \<in> set (course_runs d). run_course r = pk self \<and> status r = Published
                   \<and> could_be_marketable e r = Inr True) \<longrightarrow>
              (\<exists>r \<in> set (course_runs d'). run_course r = pk self \<and> status r = Published
                   \<and> could_be_marketable e r = Inr True)))"
proof -
  note unf = unpublish_inactive_runs_unfold[OF dist, of e now self,
      folded published_def, folded inactive_def, folded candidates_def]
  let ?A = "pk ` set inactive \<union> {p. \<exists>x \<in> set inactive. draft_version x = Some p}"
  have raises: "unpublish_inactive_runs e now self None d = Inl InvalidKeyError"
    if "partner self \<in> set (marketing_site_partners d)"
      and "\<exists>r \<in> set candidates. could_be_marketable e r = Inl InvalidKeyError"
  proof (cases "marketable_runs e candidates")
    case (Inl err)
    then show ?thesis using that(1) marketable_runs_Inl[OF Inl] by (simp add: unf)
  next
    case (Inr ms)
    from marketable_runs_Inr[OF Inr] that(2) show ?thesis by auto
  qed
  have refuse: "unpublish_inactive_runs e now self None d = Inr (d, [], False)"
    if ne: "\<forall>r \<in> set candidates. could_be_marketable e r \<noteq> Inl InvalidKeyError"
      and no: "(\<forall>r \<in> set candidates. could_be_marketable e r \<noteq> Inr True) \<or> inactive = []"
  proof -
    have "\<forall>r \<in> set candidates. \<exists>b. could_be_marketable e r = Inr b"
    proof
      fix r assume "r \<in> set candidates"
      then have "could_be_marketable e r \<noteq> Inl InvalidKeyError" using ne by blast
      then show "\<exists>b. could_be_marketable e r = Inr b"
        by (cases "could_be_marketable e r") (auto dest: could_be_marketable_err)
    qed
    from marketable_runs_total[OF this]
    have m: "marketable_runs e candidates = Inr (filter (\<lambda>r. could_be_marketable e r = Inr True) candidates)" .
    have "filter (\<lambda>r. could_be_marketable e r = Inr True) candidates = [] \<or> inactive = []"
      using no by (auto simp: filter_empty_conv)
    then show ?thesis unfolding unf m by auto
  qed
  have sub: "set inactive \<subseteq> set (course_runs d)"
    by (auto simp: inactive_def published_def)
  have acts: "d' = d\<lparr>course_runs := unpublish_rows ?A (course_runs d)\<rparr> \<and> log = []
              \<and> (\<exists>r \<in> set (course_runs d'). run_course r = pk self \<and> status r = Published
                     \<and> could_be_marketable e r = Inr True)"
    if res: "unpublish_inactive_runs e now self None d = Inr (d', log, True)" for d' log
  proof -
    from res obtain ms where ms: "marketable_runs e candidates = Inr ms"
      and ne: "ms \<noteq> []" "inactive \<noteq> []"
      and loop: "for_each (sweep_body e now) inactive (d, []) = Inr (d', log)"
      unfolding unf by (auto split: if_splits sum.splits)
    from sweep_loop[OF dist sub _ loop, of "{}"]
    have d': "d' = d\<lparr>course_runs := unpublish_rows ?A (course_runs d)\<rparr>" and l: "log = []" by simp_all
    from ne(1) obtain r where "r \<in> set ms" by (cases ms) auto
    then have rp: "r \<in> set (course_runs d)" "run_course r = pk self" "status r = Published"
      "could_be_marketable e r = Inr True" "\<not> has_enrollment_ended now r"
      using marketable_runs_Inr[OF ms] by (auto simp: candidates_def published_def)
    have nd: "\<not> draft r" using rp(4) by (rule could_be_marketable_official)
    have "pk r \<notin> ?A"
    proof
      assume "pk r \<in> ?A"
      then consider x where "x \<in> set inactive" "pk x = pk r"
        | x where "x \<in> set inactive" "draft_version x = Some (pk r)" by auto
      then show False
      proof cases
        case 1
        then have "x = r" using pk_eq[OF dist _ rp(1)] sub by blast
        then show False using 1(1) rp(5) by (simp add: inactive_def)
      next
        case 2
        then have "draft r" using drafts sub rp(1) by blast
        then show False using nd by simp
      qed
    qed
    then have "r \<in> set (unpublish_rows ?A (course_runs d))"
      using rp(1) by (force simp: unpublish_rows_def)
    then show ?thesis using d' l rp by auto
  qed
  have stays: "d' = d \<and> log = []"
    if res: "unpublish_inactive_runs e now self None d = Inr (d', log, False)" for d' log
    using res unfolding unf by (auto split: if_splits sum.splits)
  show ?thesis
  proof (intro conjI allI impI)
    assume "partner self \<in> set (marketing_site_partners d)
            \<and> (\<exists>r \<in> set candidates. could_be_marketable e r = Inl InvalidKeyError)"
    then show "unpublish_inactive_runs e now self None d = Inl InvalidKeyError"
      using raises by blast
  next
    assume "(\<forall>r \<in> set candidates. could_be_marketable e r \<noteq> Inl InvalidKeyError)
            \<and> ((\<forall>r \<in> set candidates. could_be_marketable e r \<noteq> Inr True) \<or> inactive = [])"
    then show "unpublish_inactive_runs e now self None d = Inr (d, [], False)"
      using refuse by blast
  next
    fix d' log b assume res: "unpublish_inactive_runs e now self None d = Inr (d', log, b)"
    show "log = []" using acts[of d' log] stays[of d' log] res by (cases b) auto
  next
    fix d' log b assume res: "unpublish_inactive_runs e now self None d = Inr (d', log, b)" and "\<not> b"
    then have "unpublish_inactive_runs e now self None d = Inr (d', log, False)" by simp
    then show "d' = d" using stays by blast
  next
    fix d' log b assume res: "unpublish_inactive_runs e now self None d = Inr (d', log, b)" and "b"
    then have "unpublish_inactive_runs e now self None d = Inr (d', log, True)" by simp
    from acts[OF this] show "d' = d\<lparr>course_runs := unpublish_rows ?A (course_runs d)\<rparr>" by simp
  next
    fix d' log b assume res: "unpublish_inactive_runs e now self None d = Inr (d', log, b)"
      and ex: "\<exists>r \<in> set (course_runs d). run_course r = pk self \<and> status r = Published
                   \<and> could_be_marketable e r = Inr True"
    show "\<exists>r \<in> set (course_runs d'). run_course r = pk self \<and> status r = Published
                   \<and> could_be_marketable e r = Inr True"
    proof (cases b)
      case True
      then have "unpublish_inactive_runs e now self None d = Inr (d', log, True)" using res by simp
      from acts[OF this] show ?thesis by blast
    next
      case False
      then have "unpublish_inactive_runs e now self None d = Inr (d', log, False)" using res by simp
      from stays[OF this] show ?thesis using ex by simp
    qed
  qed
qed

lemmas run_defs = enrollment_deadline_def has_enrollment_ended_def could_be_marketable_def
  unpublish_rows_def put_def mk_run_def two_runs_db_def one_run_db_def push_to_marketing_def
  is_marketable_def marketing_url_def floor_db_def

text \<open>
  Claim C1. The claim promises that a course which had a marketable published run keeps
  one, and the comment in \<^verbatim>\<open>unpublish_inactive_runs\<close> says the same; marketable, by
  \<^verbatim>\<open>is_marketable\<close>, means published, with seats and a marketing url. The sweep tests
  \<^verbatim>\<open>could_be_marketable\<close> instead. In \<open>floor_db\<close> at time 100 run 1 is marketable
  and its enrollment has ended, run 2 is open but has no seat and so is not marketable.
  The sweep counts run 2, returns \<open>True\<close> and unpublishes run 1: no run of the course is
  marketable afterwards.
\<close>

theorem unpublish_inactive_runs_floor_failure:
  "is_marketable example_env floor_db (mk_run 1 False None 1 Published (Some 10) None) = Inr True
   \<and> is_marketable example_env floor_db
         ((mk_run 2 False None 1 Published None None)\<lparr>run_key := ''course-v1:X+1+2027'', slug := ''x-1-2027''\<rparr>)
       = Inr False
   \<and> unpublish_inactive_runs example_env 100 (mk_course 1 False None ''course-v1:X+1'') None floor_db
       = Inr (floor_db\<lparr>course_runs :=
                [mk_run 1 False None 1 Unpublished (Some 10) None,
                 (mk_run 2 False None 1 Published None None)
                   \<lparr>run_key := ''course-v1:X+1+2027'', slug := ''x-1-2027''\<rparr>]\<rparr>, [], True)
   \<and> \<not> (\<exists>r \<in> set [mk_run 1 False None 1 Unpublished (Some 10) None,
                       (mk_run 2 False None 1 Published None None)
                         \<lparr>run_key := ''course-v1:X+1+2027'', slug := ''x-1-2027''\<rparr>].
           is_marketable example_env
             (floor_db\<lparr>course_runs :=
                [mk_run 1 False None 1 Unpublished (Some 10) None,
                 (mk_run 2 False None 1 Published None None)
                   \<lparr>run_key := ''course-v1:X+1+2027'', slug := ''x-1-2027''\<rparr>]\<rparr>) r = Inr True)"
proof -
  have dist: "distinct (map pk (course_runs floor_db))" by (simp add: ex_defs run_defs)
  have sweep: "unpublish_inactive_runs example_env 100 (mk_course 1 False None ''course-v1:X+1'') None floor_db
       = Inr (floor_db\<lparr>course_runs :=
                [mk_run 1 False None 1 Unpublished (Some 10) None,
                 (mk_run 2 False None 1 Published None None)
                   \<lparr>run_key := ''course-v1:X+1+2027'', slug := ''x-1-2027''\<rparr>]\<rparr>, [], True)"
    unfolding unpublish_inactive_runs_unfold[OF dist, where e = example_env and now = 100
        and self = "mk_course 1 False None ''course-v1:X+1''"]
    by (simp add: sweep_body_def save_run_unpublished ex_defs run_defs get_pk_def)
  show ?thesis
    unfolding sweep by (simp add: ex_defs run_defs)
qed

lemma update_or_create_seat_helper_err:
  "update_or_create_seat_helper e self t prices udo d = Inl err
     \<Longrightarrow> err = MultipleObjectsReturned \<or> err = InvalidOperation"
  unfolding update_or_create_seat_helper_def Let_def
  by (cases "filter (\<lambda>s. seat_course_run s = pk self \<and> seat_type s = t \<and> draft s) (seats d)"
        rule: remdups_adj.cases) (simp_all split: if_splits)

lemma for_each_helper_err:
  "for_each (\<lambda>t d0. update_or_create_seat_helper e self t prices udo d0) ts d = Inl err
     \<Longrightarrow> err = MultipleObjectsReturned \<or> err = InvalidOperation"
  by (drule for_each_Inl) (auto dest: update_or_create_seat_helper_err)

lemma set_seat_types: "set (remdups (map the (filter (\<lambda>t. t \<noteq> None) tracks))) = {t. Some t \<in> set tracks}"
  by (auto simp: image_iff) force

lemma validate_seat_upgrade_iff:
  fixes tracks :: "string option list"
  defines "types \<equiv> {t. Some t \<in> set tracks}"
  defines "requested \<equiv> types \<union> (if VERIFIED \<in> types then {AUDIT} else {})"
  shows "validate_seat_upgrade self (remdups (map the (filter (\<lambda>t. t \<noteq> None) tracks))) d =
           (case official_version (course_runs d) (pk self) of
              None \<Rightarrow> None
            | Some official \<Rightarrow>
                if \<exists>s \<in> set (seats d). seat_course_run s = pk official \<and> seat_type s \<notin> requested
                then Some SeatTypeSwitch else None)"
proof -
  let ?ts = "remdups (map the (filter (\<lambda>t. t \<noteq> None) tracks))"
  have ts: "set ?ts = types" unfolding types_def by (rule set_seat_types)
  define R where "R = (if \<exists>t \<in> set ?ts. t \<in> set REQUIRES_AUDIT_SEAT then AUDIT # ?ts else ?ts)"
  have R: "set R = requested"
    unfolding requested_def R_def using ts by (auto simp: REQUIRES_AUDIT_SEAT_def)
  have old: "\<And>official. (\<exists>t \<in> set (map seat_type (filter (\<lambda>s. seat_course_run s = pk official) (seats d))). t \<notin> set R)
                = (\<exists>s \<in> set (seats d). seat_course_run s = pk official \<and> seat_type s \<notin> requested)"
    unfolding R by auto
  show ?thesis
    unfolding validate_seat_upgrade_def Let_def R_def[symmetric] old
    by (simp split: option.splits)
qed

text \<open>
  Claim C10. The requested seat types are those of the tracks, with Audit added when
  Verified is among them. For a run with an official counterpart,
  \<^verbatim>\<open>update_or_create_seats\<close> raises the seat-type error, and then persists nothing (the
  error result carries no store), exactly when some seat of the official run has a type
  that is not requested. For a run without an official counterpart the seat-type error
  never arises, whatever the types asked for: the errors left are those of
  \<^verbatim>\<open>update_or_create\<close>, which finds several draft seats of one type or is given a price
  that the field cannot hold.
\<close>

theorem update_or_create_seats_conflict:
  fixes tracks :: "string option list"
  defines "types \<equiv> {t. Some t \<in> set tracks}"
  defines "requested \<equiv> types \<union> (if VERIFIED \<in> types then {AUDIT} else {})"
  shows "(\<forall>official. official_version (course_runs d) (pk self) = Some official \<longrightarrow>
            ((\<exists>s \<in> set (seats d). seat_course_run s = pk official \<and> seat_type s \<notin> requested)
               \<longleftrightarrow> update_or_create_seats e self tracks prices udo d = Inl SeatTypeSwitch))
       \<and> (official_version (course_runs d) (pk self) = None \<longrightarrow>
            update_or_create_seats e self tracks prices udo d \<noteq> Inl SeatTypeSwitch
          \<and> (\<forall>err. update_or_create_seats e self tracks prices udo d = Inl err \<longrightarrow>
                 err = MultipleObjectsReturned \<or> err = InvalidOperation))"
proof -
  note v = validate_seat_upgrade_iff[of self tracks d, folded types_def, folded requested_def]
  have 1: "update_or_create_seats e self tracks prices udo d = Inl SeatTypeSwitch
           \<longleftrightarrow> validate_seat_upgrade self (remdups (map the (filter (\<lambda>t. t \<noteq> None) tracks))) d = Some SeatTypeSwitch"
    by (auto simp: update_or_create_seats_def Let_def validate_seat_upgrade_def
        split: option.splits sum.splits if_splits dest: for_each_helper_err)
  have 2: "err = MultipleObjectsReturned \<or> err = InvalidOperation"
    if "validate_seat_upgrade self (remdups (map the (filter (\<lambda>t. t \<noteq> None) tracks))) d = None"
      and "update_or_create_seats e self tracks prices udo d = Inl err" for err
    using that by (auto simp: update_or_create_seats_def Let_def split: sum.splits dest: for_each_helper_err)
  show ?thesis
  proof (intro conjI allI impI)
    fix official assume "official_version (course_runs d) (pk self) = Some official"
    then show "(\<exists>s \<in> set (seats d). seat_course_run s = pk official \<and> seat_type s \<notin> requested)
               \<longleftrightarrow> update_or_create_seats e self tracks prices udo d = Inl SeatTypeSwitch"
      unfolding 1 v by simp
  next
    fix err assume "official_version (course_runs d) (pk self) = None"
      and "update_or_create_seats e self tracks prices udo d = Inl err"
    then show "err = MultipleObjectsReturned \<or> err = InvalidOperation" using 2 v by simp
  next
    assume none: "official_version (course_runs d) (pk self) = None"
    show "update_or_create_seats e self tracks prices udo d \<noteq> Inl SeatTypeSwitch"
    proof
      assume "update_or_create_seats e self tracks prices udo d = Inl SeatTypeSwitch"
      then show False using 1 v none by simp
    qed
  qed
qed

lemmas seat_defs = update_or_create_seats_def validate_seat_upgrade_def update_or_create_seat_helper_def
  get_seat_default_upgrade_deadline_def delete_seats_def mk_seat_def seats_db_def price_fits_def
  VERIFIED_def AUDIT_def REQUIRES_AUDIT_SEAT_def

text \<open>
  In \<open>seats_db\<close> the draft run 3 may not drop to Audit alone, may ask for Verified
  (Audit is added), and run 2, which has no official counterpart, may take any type.
\<close>

theorem update_or_create_seats_conflict_witness:
  "official_version (course_runs seats_db) 3 = Some (mk_run 1 False (Some 3) 1 Published (Some 10) None)
   \<and> (\<exists>s \<in> set (seats seats_db). seat_course_run s = 1 \<and> seat_type s \<notin> {''audit''})
   \<and> update_or_create_seats example_env (mk_run 3 True None 1 Published (Some 10) None) [Some ''audit''] [] None seats_db
       = Inl SeatTypeSwitch
   \<and> \<not> (\<exists>s \<in> set (seats seats_db). seat_course_run s = 1 \<and> seat_type s \<notin> {''verified'', ''audit''})
   \<and> update_or_create_seats example_env (mk_run 3 True None 1 Published (Some 10) None) [Some ''verified'', None] [] None seats_db
       \<noteq> Inl SeatTypeSwitch
   \<and> official_version (course_runs seats_db) 2 = None
   \<and> (\<exists>d'. update_or_create_seats example_env (mk_run 2 False None 1 Published None None) [Some ''audit''] [] None seats_db = Inr d')"
proof -
  let ?r3 = "mk_run 3 True None 1 Published (Some 10) None"
  let ?r2 = "mk_run 2 False None 1 Published None None"
  have o3: "official_version (course_runs seats_db) (pk ?r3) = Some (mk_run 1 False (Some 3) 1 Published (Some 10) None)"
    and o2: "official_version (course_runs seats_db) (pk ?r2) = None"
    by (simp_all add: ex_defs run_defs seat_defs official_version_def)
  have p: "pk ?r3 = 3" "pk ?r2 = 2" "pk (mk_run 1 False (Some 3) 1 Published (Some 10) None) = 1"
    by (simp_all add: mk_run_def)
  have dropped: "\<exists>s \<in> set (seats seats_db). seat_course_run s = 1 \<and> seat_type s \<notin> {''audit''}"
    and kept: "\<not> (\<exists>s \<in> set (seats seats_db). seat_course_run s = 1 \<and> seat_type s \<notin> {''verified'', ''audit''})"
    by (simp_all add: ex_defs run_defs seat_defs)
  have t1: "{t. Some t \<in> set [Some ''audit'']} \<union> (if VERIFIED \<in> {t. Some t \<in> set [Some ''audit'']} then {AUDIT} else {}) = {''audit''}"
    and t2: "{t. Some t \<in> set [Some ''verified'', None]} \<union> (if VERIFIED \<in> {t. Some t \<in> set [Some ''verified'', None]} then {AUDIT} else {})
             = {''verified'', ''audit''}"
    by (auto simp: VERIFIED_def AUDIT_def)
  from update_or_create_seats_conflict[of seats_db ?r3 "[Some ''audit'']" example_env "[]" None, unfolded t1] o3 dropped p
  have a: "update_or_create_seats example_env ?r3 [Some ''audit''] [] None seats_db = Inl SeatTypeSwitch"
    by auto
  from update_or_create_seats_conflict[of seats_db ?r3 "[Some ''verified'', None]" example_env "[]" None, unfolded t2] o3 kept p
  have b: "update_or_create_seats example_env ?r3 [Some ''verified'', None] [] None seats_db \<noteq> Inl SeatTypeSwitch"
    by auto
  have c: "\<exists>d'. update_or_create_seats example_env ?r2 [Some ''audit''] [] None seats_db = Inr d'"
    by (simp add: ex_defs run_defs seat_defs official_version_def Let_def)
  show ?thesis using o3 o2 p dropped kept a b c by simp
qed

subsection \<open>Promotion of one row, on a table with distinct keys\<close>

lemma new_pk_notin: "new_pk (map pk tbl) \<notin> pk ` set tbl"
  using new_pk_fresh[of _ "map pk tbl"] by force

lemma find_append_not: "\<not> P x \<Longrightarrow> find P (xs @ [x]) = find P xs"
  by (induction xs) auto

lemma find_append_new: "find P xs = None \<Longrightarrow> P x \<Longrightarrow> find P (xs @ [x]) = Some x"
  by (induction xs) (auto split: if_splits)

lemma find_map_same:
  "(\<And>x. x \<in> set xs \<Longrightarrow> P (f x) = P x \<and> (P x \<longrightarrow> f x = x)) \<Longrightarrow> find P (map f xs) = find P xs"
  by (induction xs) auto

lemma find_map_replaced:
  assumes "find P xs = Some old" and "P new"
    and "\<And>x. x \<in> set xs \<Longrightarrow> x \<noteq> old \<Longrightarrow> f x = x" and "f old = new"
  shows "find P (map f xs) = Some new"
  using assms
proof (induction xs)
  case Nil
  then show ?case by simp
next
  case (Cons a xs)
  show ?case
  proof (cases "P a")
    case True
    then have "a = old" using Cons.prems(1) by simp
    then show ?thesis using Cons.prems(2,4) by simp
  next
    case False
    then have f: "find P xs = Some old" using Cons.prems(1) by simp
    then have "old \<in> set xs \<and> P old" by (rule find_SomeD)
    then have "a \<noteq> old" using False by auto
    then have "f a = a" using Cons.prems(3) by simp
    moreover have "find P (map f xs) = Some new"
      using Cons.IH[OF f Cons.prems(2)] Cons.prems(3,4) by simp
    ultimately show ?thesis using False by simp
  qed
qed

lemma put_eq_map:
  assumes "distinct (map pk tbl)" and "old \<in> set tbl" and "pk new = pk old"
  shows "put new tbl = map (\<lambda>x. if x = old then new else x) tbl"
  unfolding put_def using assms pk_eq[OF assms(1) _ assms(2)]
  by (intro map_cong) auto

text \<open>The three outcomes of \<open>set_official_state\<close>.\<close>

lemma set_official_state_cases:
  obtains (not_draft) "\<not> draft obj" "set_official_state rel tbl obj = (tbl, obj)"
  | (created) "draft obj" "official_version tbl (pk obj) = None"
      "set_official_state rel tbl obj =
         (tbl @ [rel None (obj\<lparr>pk := new_pk (map pk tbl), draft := False, draft_version := Some (pk obj)\<rparr>)],
          rel None (obj\<lparr>pk := new_pk (map pk tbl), draft := False, draft_version := Some (pk obj)\<rparr>))"
  | (updated) old where "draft obj" "official_version tbl (pk obj) = Some old"
      "set_official_state rel tbl obj =
         (put (rel (Some old) (obj\<lparr>pk := pk old, draft := False, draft_version := Some (pk obj)\<rparr>)) tbl,
          rel (Some old) (obj\<lparr>pk := pk old, draft := False, draft_version := Some (pk obj)\<rparr>))"
  by (cases "draft obj"; cases "official_version tbl (pk obj)")
     (auto simp: set_official_state_def Let_def)

lemma plain_relations [simp]:
  "plain course_relations" "plain run_relations" "plain (seat_relations p)"
  "plain (entitlement_relations p)" "plain (restriction_relations p)"
  by (auto simp: plain_def course_relations_def run_relations_def seat_relations_def
      entitlement_relations_def restriction_relations_def split: option.splits)

lemma plainD:
  "plain rel \<Longrightarrow> pk (rel prev x) = pk x"
  "plain rel \<Longrightarrow> draft (rel prev x) = draft x"
  "plain rel \<Longrightarrow> draft_version (rel prev x) = draft_version x"
  by (simp_all add: plain_def)

lemma official_version_Some:
  "official_version tbl p = Some old \<Longrightarrow> old \<in> set tbl \<and> draft_version old = Some p"
  by (auto simp: official_version_def dest: find_SomeD)

lemma set_official_state_result:
  assumes pl: "plain rel" and dr: "draft obj" and res: "set_official_state rel tbl obj = (tbl', off)"
  shows "\<not> draft off" "draft_version off = Some (pk obj)"
    "off = rel (official_version tbl (pk obj)) (obj\<lparr>pk := pk off, draft := False, draft_version := Some (pk obj)\<rparr>)"
    "official_version tbl (pk obj) = None \<Longrightarrow> pk off = new_pk (map pk tbl) \<and> tbl' = tbl @ [off]"
    "official_version tbl (pk obj) = Some old \<Longrightarrow> pk off = pk old \<and> tbl' = put off tbl"
proof -
  have all: "\<not> draft off \<and> draft_version off = Some (pk obj)
    \<and> off = rel (official_version tbl (pk obj)) (obj\<lparr>pk := pk off, draft := False, draft_version := Some (pk obj)\<rparr>)
    \<and> (official_version tbl (pk obj) = None \<longrightarrow> pk off = new_pk (map pk tbl) \<and> tbl' = tbl @ [off])
    \<and> (\<forall>old. official_version tbl (pk obj) = Some old \<longrightarrow> pk off = pk old \<and> tbl' = put off tbl)"
  proof (cases rule: set_official_state_cases[of obj rel tbl])
    case not_draft
    then show ?thesis using dr by simp
  next
    case created
    then have "off = rel None (obj\<lparr>pk := new_pk (map pk tbl), draft := False, draft_version := Some (pk obj)\<rparr>)"
      and "tbl' = tbl @ [off]" using res by simp_all
    then show ?thesis using created(2) plainD[OF pl] by simp
  next
    case (updated old)
    then have "off = rel (Some old) (obj\<lparr>pk := pk old, draft := False, draft_version := Some (pk obj)\<rparr>)"
      and "tbl' = put off tbl" using res by simp_all
    then show ?thesis using updated(2) plainD[OF pl] by simp
  qed
  show "\<not> draft off" "draft_version off = Some (pk obj)"
    "off = rel (official_version tbl (pk obj)) (obj\<lparr>pk := pk off, draft := False, draft_version := Some (pk obj)\<rparr>)"
    "official_version tbl (pk obj) = None \<Longrightarrow> pk off = new_pk (map pk tbl) \<and> tbl' = tbl @ [off]"
    "official_version tbl (pk obj) = Some old \<Longrightarrow> pk off = pk old \<and> tbl' = put off tbl"
    using all by blast+
qed

lemma set_official_state_distinct:
  assumes "plain rel" and "distinct (map pk tbl)"
  shows "distinct (map pk (fst (set_official_state rel tbl obj)))"
proof (cases rule: set_official_state_cases[of obj rel tbl])
  case not_draft
  then show ?thesis using assms by simp
next
  case created
  then show ?thesis using assms new_pk_notin[of tbl] by (simp add: plainD)
next
  case (updated old)
  then show ?thesis using assms by (simp add: map_pk_put plainD)
qed

text \<open>After the step the row has its official counterpart, first among the rows linked to it.\<close>

lemma set_official_state_official:
  assumes pl: "plain rel" and dist: "distinct (map pk tbl)" and dr: "draft obj"
    and res: "set_official_state rel tbl obj = (tbl', off)"
  shows "official_version tbl' (pk obj) = Some off"
proof (cases rule: set_official_state_cases[of obj rel tbl])
  case not_draft
  then show ?thesis using dr by simp
next
  case created
  then have "tbl' = tbl @ [off]" and "draft_version off = Some (pk obj)"
    using res pl by (auto simp: plainD)
  then show ?thesis
    using created(2) by (simp add: official_version_def find_append_new)
next
  case (updated old)
  then have t: "tbl' = put off tbl" and o: "draft_version off = Some (pk obj)" "pk off = pk old"
    using res pl by (auto simp: plainD)
  have old: "old \<in> set tbl" using official_version_Some[OF updated(2)] by simp
  have "find (\<lambda>r. draft_version r = Some (pk obj)) (map (\<lambda>x. if x = old then off else x) tbl) = Some off"
    by (rule find_map_replaced[where old = old])
       (use updated(2) o in \<open>auto simp: official_version_def\<close>)
  then show ?thesis
    unfolding t put_eq_map[OF dist old o(2)] official_version_def .
qed

text \<open>The official counterparts of other rows stay what they were.\<close>

lemma set_official_state_other:
  assumes pl: "plain rel" and dist: "distinct (map pk tbl)" and p: "p \<noteq> pk obj"
  shows "official_version (fst (set_official_state rel tbl obj)) p = official_version tbl p"
proof (cases rule: set_official_state_cases[of obj rel tbl])
  case not_draft
  then show ?thesis by simp
next
  case created
  then show ?thesis using p pl by (simp add: official_version_def find_append_not plainD)
next
  case (updated old)
  let ?off = "rel (Some old) (obj\<lparr>pk := pk old, draft := False, draft_version := Some (pk obj)\<rparr>)"
  have old: "old \<in> set tbl" "draft_version old = Some (pk obj)"
    using official_version_Some[OF updated(2)] by auto
  have o: "pk ?off = pk old" "draft_version ?off = Some (pk obj)" using pl by (simp_all add: plainD)
  have "find (\<lambda>r. draft_version r = Some p) (map (\<lambda>x. if x = old then ?off else x) tbl)
          = find (\<lambda>r. draft_version r = Some p) tbl"
    by (rule find_map_same) (use old o p in auto)
  then show ?thesis
    using updated(3) by (simp add: put_eq_map[OF dist old(1) o(1)] official_version_def)
qed

text \<open>Every row of the new table is an old one or the official counterpart just written.\<close>

lemma set_official_state_rows:
  assumes "set_official_state rel tbl obj = (tbl', off)"
  shows "set tbl' \<subseteq> insert off (set tbl)"
  using assms by (cases rule: set_official_state_cases[of obj rel tbl]) (auto simp: put_def)

text \<open>Rows that are not the previous official counterpart stay in the table.\<close>

lemma set_official_state_keeps:
  assumes pl: "plain rel" and dist: "distinct (map pk tbl)" and x: "x \<in> set tbl"
    and nx: "draft_version x \<noteq> Some (pk obj) \<or> \<not> draft obj"
  shows "x \<in> set (fst (set_official_state rel tbl obj))"
proof (cases rule: set_official_state_cases[of obj rel tbl])
  case not_draft
  then show ?thesis using x by simp
next
  case created
  then show ?thesis using x by simp
next
  case (updated old)
  have old: "old \<in> set tbl" "draft_version old = Some (pk obj)"
    using official_version_Some[OF updated(2)] by auto
  then have "pk x \<noteq> pk old" using pk_eq[OF dist x old(1)] nx updated(1) by auto
  then have "x \<in> set (put off tbl)" if "pk off = pk old" for off
    unfolding put_def set_map using x that by (intro image_eqI[where x = x]) simp_all
  then show ?thesis using updated(3) pl by (simp add: plainD)
qed

text \<open>A step that finds the counterpart already equal to the copy changes nothing.\<close>

lemma set_official_state_fixed:
  assumes dist: "distinct (map pk tbl)"
    and "draft obj \<Longrightarrow> \<exists>old. official_version tbl (pk obj) = Some old
            \<and> rel (Some old) (obj\<lparr>pk := pk old, draft := False, draft_version := Some (pk obj)\<rparr>) = old"
  shows "fst (set_official_state rel tbl obj) = tbl"
proof (cases rule: set_official_state_cases[of obj rel tbl])
  case not_draft
  then show ?thesis by simp
next
  case created
  then show ?thesis using assms(2) by auto
next
  case (updated old)
  then have "rel (Some old) (obj\<lparr>pk := pk old, draft := False, draft_version := Some (pk obj)\<rparr>) = old"
    using assms(2) by auto
  moreover have "old \<in> set tbl" using official_version_Some[OF updated(2)] by simp
  ultimately show ?thesis using updated(3) put_self[OF dist] by simp
qed

subsection \<open>Promotion of the rows of a list\<close>

lemma promote_all_simps [simp]:
  "promote_all rel [] tbl = tbl"
  "promote_all rel (x # xs) tbl = promote_all rel xs (fst (set_official_state rel tbl x))"
  by (simp_all add: promote_all_def)

lemma fold_seats:
  "fold (\<lambda>seat d0. d0\<lparr>seats := fst (set_official_state rel (seats d0) seat)\<rparr>) xs d
     = d\<lparr>seats := promote_all rel xs (seats d)\<rparr>"
  by (induction xs arbitrary: d) simp_all

lemma fold_entitlements:
  "fold (\<lambda>x d0. if P x then d0\<lparr>entitlements := fst (set_official_state rel (entitlements d0) x)\<rparr> else d0) xs d
     = d\<lparr>entitlements := promote_all rel (filter P xs) (entitlements d)\<rparr>"
  by (induction xs arbitrary: d) simp_all

lemma promote_all_distinct:
  "plain rel \<Longrightarrow> distinct (map pk tbl) \<Longrightarrow> distinct (map pk (promote_all rel xs tbl))"
  by (induction xs arbitrary: tbl) (simp_all add: set_official_state_distinct)

lemma promote_all_other:
  "plain rel \<Longrightarrow> distinct (map pk tbl) \<Longrightarrow> p \<notin> pk ` set xs
     \<Longrightarrow> official_version (promote_all rel xs tbl) p = official_version tbl p"
proof (induction xs arbitrary: tbl)
  case Nil
  then show ?case by simp
next
  case (Cons x xs)
  have "official_version (promote_all rel xs (fst (set_official_state rel tbl x))) p
          = official_version (fst (set_official_state rel tbl x)) p"
    using Cons.prems by (intro Cons.IH set_official_state_distinct) auto
  also have "\<dots> = official_version tbl p"
    using Cons.prems by (intro set_official_state_other) auto
  finally show ?case by simp
qed

text \<open>Every draft row of the list ends with an official counterpart that is its copy.\<close>

lemma promote_all_official:
  assumes pl: "plain rel"
  shows "distinct (map pk tbl) \<Longrightarrow> distinct (map pk xs) \<Longrightarrow> obj \<in> set xs \<Longrightarrow> draft obj
     \<Longrightarrow> \<exists>off prev. official_version (promote_all rel xs tbl) (pk obj) = Some off
            \<and> off = rel prev (obj\<lparr>pk := pk off, draft := False, draft_version := Some (pk obj)\<rparr>)"
proof (induction xs arbitrary: tbl)
  case Nil
  then show ?case by simp
next
  case (Cons x xs)
  obtain tbl1 off where step: "set_official_state rel tbl x = (tbl1, off)" by (cases "set_official_state rel tbl x")
  have d1: "distinct (map pk tbl1)"
    using set_official_state_distinct[OF pl Cons.prems(1), of x] step by simp
  show ?case
  proof (cases "obj = x")
    case True
    have "pk x \<notin> pk ` set xs" using Cons.prems(2) by simp
    then have "official_version (promote_all rel xs tbl1) (pk x) = official_version tbl1 (pk x)"
      by (rule promote_all_other[OF pl d1])
    also have "\<dots> = Some off"
      using Cons.prems(4) True by (intro set_official_state_official[OF pl Cons.prems(1) _ step]) simp
    finally have "official_version (promote_all rel (x # xs) tbl) (pk x) = Some off"
      using step by simp
    moreover have "off = rel (official_version tbl (pk x)) (x\<lparr>pk := pk off, draft := False, draft_version := Some (pk x)\<rparr>)"
      using Cons.prems(4) True by (intro set_official_state_result(3)[OF pl _ step]) simp
    ultimately show ?thesis using True by blast
  next
    case False
    then have "obj \<in> set xs" using Cons.prems(3) by simp
    from Cons.IH[OF d1 _ this Cons.prems(4)] Cons.prems(2)
    show ?thesis using step by simp
  qed
qed

text \<open>Every row of the result is a row of the table or the copy of a draft row of the list.\<close>

lemma promote_all_rows:
  assumes pl: "plain rel"
  shows "y \<in> set (promote_all rel xs tbl) \<Longrightarrow>
     y \<in> set tbl \<or> (\<exists>obj \<in> set xs. \<exists>prev. draft obj
          \<and> y = rel prev (obj\<lparr>pk := pk y, draft := False, draft_version := Some (pk obj)\<rparr>))"
proof (induction xs arbitrary: tbl)
  case Nil
  then show ?case by simp
next
  case (Cons x xs)
  obtain tbl1 off where step: "set_official_state rel tbl x = (tbl1, off)" by (cases "set_official_state rel tbl x")
  from Cons.prems have "y \<in> set (promote_all rel xs tbl1)" using step by simp
  from Cons.IH[OF this] consider "y \<in> set tbl1"
    | "\<exists>obj \<in> set xs. \<exists>prev. draft obj \<and> y = rel prev (obj\<lparr>pk := pk y, draft := False, draft_version := Some (pk obj)\<rparr>)"
    by blast
  then show ?case
  proof cases
    case 1
    then have "y = off \<or> y \<in> set tbl" using set_official_state_rows[OF step] by auto
    then show ?thesis
    proof
      assume y: "y = off"
      show ?thesis
      proof (cases "draft x")
        case True
        from set_official_state_result(3)[OF pl True step] y show ?thesis using True by auto
      next
        case False
        then have "tbl1 = tbl" using step by (simp add: set_official_state_def)
        then show ?thesis using 1 by simp
      qed
    qed simp
  next
    case 2
    then show ?thesis by auto
  qed
qed

text \<open>A list whose draft rows already have their copies as counterparts changes nothing.\<close>

lemma promote_all_fixed:
  assumes dist: "distinct (map pk tbl)"
    and "\<And>obj. obj \<in> set xs \<Longrightarrow> draft obj \<Longrightarrow> \<exists>old. official_version tbl (pk obj) = Some old
            \<and> rel (Some old) (obj\<lparr>pk := pk old, draft := False, draft_version := Some (pk obj)\<rparr>) = old"
  shows "promote_all rel xs tbl = tbl"
  using assms(2)
proof (induction xs)
  case Nil
  then show ?case by simp
next
  case (Cons x xs)
  have "fst (set_official_state rel tbl x) = tbl"
    by (rule set_official_state_fixed[OF dist]) (use Cons.prems in auto)
  then show ?case using Cons by simp
qed

text \<open>Rows that are not the counterpart of a draft row of the list stay in the table.\<close>

lemma promote_all_keeps:
  assumes pl: "plain rel"
  shows "distinct (map pk tbl) \<Longrightarrow> x \<in> set tbl
     \<Longrightarrow> \<forall>obj \<in> set xs. draft obj \<longrightarrow> draft_version x \<noteq> Some (pk obj)
     \<Longrightarrow> x \<in> set (promote_all rel xs tbl)"
proof (induction xs arbitrary: tbl)
  case Nil
  then show ?case by simp
next
  case (Cons a xs)
  have "x \<in> set (fst (set_official_state rel tbl a))"
    using Cons.prems by (intro set_official_state_keeps[OF pl]) auto
  then show ?case
    using Cons.prems set_official_state_distinct[OF pl Cons.prems(1), of a] by (simp add: Cons.IH)
qed

subsection \<open>Saving a course whose runs are as stored\<close>

lemma save_runs_quiet:
  assumes dist: "distinct (map pk (course_runs d))"
  shows "set xs \<subseteq> set (course_runs d) \<Longrightarrow> \<forall>r \<in> set xs. \<exists>b. push_to_marketing e d r = Inr b \<Longrightarrow>
     for_each (\<lambda>course_run (d0, log0).
                 case save_run e now True (status course_run) False course_run d0 of
                   Inl err \<Rightarrow> Inl err
                 | Inr (d2, log2) \<Rightarrow> Inr (d2, log0 @ log2)) xs (d, []) = Inr (d, [])"
proof (induction xs)
  case Nil
  then show ?case by simp
next
  case (Cons x xs)
  then have "x \<in> set (course_runs d)" by simp
  then have "put x (course_runs d) = course_runs d" by (rule put_self[OF dist])
  moreover obtain b where "push_to_marketing e d x = Inr b" using Cons.prems(2) by auto
  ultimately have "save_run e now True (status x) False x d = Inr (d, [])"
    by (simp add: save_run_same)
  then show ?case using Cons by simp
qed

lemma save_runs_as_stored:
  assumes dist: "distinct (map pk (course_runs d))"
  shows "set xs \<subseteq> set (course_runs d) \<Longrightarrow>
     for_each (\<lambda>course_run (d0, log0).
                 case save_run e now True (status course_run) False course_run d0 of
                   Inl err \<Rightarrow> Inl err
                 | Inr (d2, log2) \<Rightarrow> Inr (d2, log0 @ log2)) xs (d, []) = Inr x
     \<Longrightarrow> x = (d, []) \<and> (\<forall>r \<in> set xs. \<exists>b. push_to_marketing e d r = Inr b)"
proof (induction xs)
  case Nil
  then show ?case by simp
next
  case (Cons a xs)
  then have "a \<in> set (course_runs d)" by simp
  then have p: "put a (course_runs d) = course_runs d" by (rule put_self[OF dist])
  from Cons.prems(2) obtain y where y: "save_run e now True (status a) False a d = Inr y"
    by (auto split: sum.splits)
  from save_run_Inr[OF y] obtain b where b: "push_to_marketing e d a = Inr b" by blast
  then have "save_run e now True (status a) False a d = Inr (d, [])"
    using p by (simp add: save_run_same)
  then show ?case using Cons b by simp
qed

lemma save_course_quiet:
  assumes "distinct (map pk (course_runs d))"
    and "\<forall>r \<in> set (course_runs d). run_course r = pk self \<longrightarrow>
           (\<exists>b. push_to_marketing e (d\<lparr>courses := put (stamp now changed self) (courses d)\<rparr>) r = Inr b)"
  shows "save_course e now changed self d = Inr (d\<lparr>courses := put (stamp now changed self) (courses d)\<rparr>, [])"
proof -
  let ?d1 = "d\<lparr>courses := put (stamp now changed self) (courses d)\<rparr>"
  have "distinct (map pk (course_runs ?d1))" using assms by simp
  from save_runs_quiet[OF this, of "filter (\<lambda>r. run_course r = pk self) (course_runs ?d1)" e now] assms(2)
  show ?thesis by (simp add: save_course.simps stamp_def Let_def)
qed

lemma save_course_plain:
  assumes "distinct (map pk (course_runs d))" and "save_course e now changed self d = Inr x"
  shows "x = (d\<lparr>courses := put (stamp now changed self) (courses d)\<rparr>, [])"
proof -
  let ?d1 = "d\<lparr>courses := put (stamp now changed self) (courses d)\<rparr>"
  have "distinct (map pk (course_runs ?d1))" using assms by simp
  from save_runs_as_stored[OF this, of "filter (\<lambda>r. run_course r = pk self) (course_runs ?d1)" e now x] assms(2)
  show ?thesis by (simp add: save_course.simps stamp_def Let_def)
qed

subsection \<open>What an activation leaves alone\<close>

lemma rest_simps [simp]:
  "rest (d\<lparr>url_slugs := u\<rparr>) = rest d" "rest (d\<lparr>courses := c\<rparr>) = rest d"
  "rest (set_data_modified_timestamp now self d) = rest d" "rest (delete_url_slugs P d) = rest d"
  by (simp_all add: rest_def set_data_modified_timestamp_def delete_url_slugs_def)

lemma courses_delete_url_slugs [simp]: "courses (delete_url_slugs P d) = courses d"
  by (simp add: delete_url_slugs_def)

lemma save_url_slug_rest: "save_url_slug d u = Inr d' \<Longrightarrow> rest d' = rest d \<and> courses d' = courses d"
  by (auto dest!: save_url_slug_Inr)

lemma create_url_slug_rest: "create_url_slug d u = Inr d' \<Longrightarrow> rest d' = rest d \<and> courses d' = courses d"
  by (auto dest!: create_url_slug_Inr)

lemma for_each_save_rest:
  "for_each (\<lambda>x d'. save_url_slug d' (g x)) xs d = Inr d' \<Longrightarrow> rest d' = rest d \<and> courses d' = courses d"
  by (induction xs arbitrary: d) (auto split: sum.splits dest!: save_url_slug_rest)

lemma update_or_create_active_rest:
  "update_or_create_active e self s d = Inr d' \<Longrightarrow> rest d' = rest d \<and> courses d' = courses d"
  by (auto simp: update_or_create_active_def split: list.splits dest!: save_url_slug_rest create_url_slug_rest)

lemma update_or_create_by_text_rest:
  "update_or_create_by_text e self s d = Inr (d', t, created) \<Longrightarrow> rest d' = rest d \<and> courses d' = courses d"
  by (auto simp: update_or_create_by_text_def Let_def split: list.splits sum.splits
      dest!: save_url_slug_rest create_url_slug_rest)

lemma set_active_url_slug_official_rest:
  assumes "set_active_url_slug_official e now d self s = Inr d'"
  shows "rest d' = rest d
       \<and> (courses d' = courses d \<or> courses d' = courses (set_data_modified_timestamp now self d))"
proof -
  define d1 where "d1 = (case draft_version self of None \<Rightarrow> d
            | Some dv \<Rightarrow> delete_url_slugs (\<lambda>u. slug_course u = dv \<and> is_active u) d)"
  have r1: "rest d1 = rest d" "courses d1 = courses d" by (simp_all add: d1_def split: option.splits)
  from assms obtain d2 t created where u: "update_or_create_by_text e self s d1 = Inr (d2, t, created)"
    and c: "clear_other_slugs (pk self) t (if created then set_data_modified_timestamp now self d2 else d2) = Inr d'"
    unfolding set_active_url_slug_official_def Let_def d1_def[symmetric] by (auto split: sum.splits)
  from update_or_create_by_text_rest[OF u] have r2: "rest d2 = rest d" "courses d2 = courses d"
    using r1 by simp_all
  from c have "rest d' = rest (if created then set_data_modified_timestamp now self d2 else d2)
      \<and> courses d' = courses (if created then set_data_modified_timestamp now self d2 else d2)"
    unfolding clear_other_slugs_def by (rule for_each_save_rest)
  then show ?thesis using r2 by (auto simp: set_data_modified_timestamp_def)
qed

lemma set_active_url_slug_draft_rest:
  assumes "set_active_url_slug_draft e now d self s = Inr d'"
  shows "rest d' = rest d
       \<and> (courses d' = courses d \<or> courses d' = courses (set_data_modified_timestamp now self d))"
proof -
  have case2: "rest d'' = rest d0
       \<and> (courses d'' = courses d0 \<or> courses d'' = courses (set_data_modified_timestamp now self d0))"
    if "(case update_or_create_active e self s d0 of Inl err \<Rightarrow> Inl err
         | Inr d2 \<Rightarrow> Inr (if b then set_data_modified_timestamp now self d2 else d2)) = Inr d''"
    for d0 d'' b
    using that by (auto split: sum.splits dest!: update_or_create_active_rest simp: set_data_modified_timestamp_def)
  show ?thesis
  proof (cases "official_version (courses d) (pk self)")
    case None
    then show ?thesis using assms case2[where ?d0.0 = d and d'' = d']
      by (simp add: set_active_url_slug_draft_def Let_def)
  next
    case (Some off)
    from assms Some obtain d1 where m: "mark_official_entries s (pk off) d = Inr d1"
      by (auto simp: set_active_url_slug_draft_def Let_def split: sum.splits)
    then have r1: "rest d1 = rest d" "courses d1 = courses d"
      unfolding mark_official_entries_def by (auto dest: for_each_save_rest)
    show ?thesis
    proof (cases "found_in_official s (pk off) d")
      case True
      then show ?thesis using assms Some m r1
        by (auto simp: set_active_url_slug_draft_def Let_def set_data_modified_timestamp_def
            split: option.splits if_splits)
    next
      case False
      then show ?thesis using assms Some m r1 case2[where ?d0.0 = d1 and d'' = d']
        by (simp add: set_active_url_slug_draft_def Let_def set_data_modified_timestamp_def)
    qed
  qed
qed

lemma set_active_url_slug_rest:
  assumes "set_active_url_slug e now d self s = Inr d'"
  shows "rest d' = rest d"
    and "courses d' = courses d \<or> courses d' = courses (set_data_modified_timestamp now self d)"
  using assms set_active_url_slug_draft_rest[of e now d self s d']
    set_active_url_slug_official_rest[of e now d self s d']
  by (auto simp: set_active_url_slug_def split: if_splits)

lemma restD:
  "rest d' = rest d \<Longrightarrow> course_runs d' = course_runs d"
  "rest d' = rest d \<Longrightarrow> seats d' = seats d"
  "rest d' = rest d \<Longrightarrow> entitlements d' = entitlements d"
  "rest d' = rest d \<Longrightarrow> restricted_runs d' = restricted_runs d"
  "rest d' = rest d \<Longrightarrow> marketing_site_partners d' = marketing_site_partners d"
  by (simp_all add: rest_def)

subsection \<open>The two promotions, step by step\<close>

lemma get_pk_again: "get_pk tbl p = Some c \<Longrightarrow> get_pk tbl (pk c) = Some c"
  using get_pk_Some[of tbl p c] by simp

lemma course_promote_lhs:
  assumes c: "get_pk (courses d) (pk c) = Some c"
    and st: "set_official_state course_relations (courses d) c = (tbl, off)"
    and dA: "dA = d\<lparr>courses := tbl,
                 entitlements := promote_all (entitlement_relations (pk off))
                     (filter (\<lambda>x. mode x \<in> set ENTITLEMENT_MODES)
                        (filter (\<lambda>x. entitlement_course x = pk c) (entitlements d)))
                     (entitlements d)\<rparr>"
  shows "course_update_or_create_official_version e now c run d =
     (case set_active_url_slug e now dA off (active_url_slug dA c) of
           Inl err \<Rightarrow> Inl err
         | Inr d3 \<Rightarrow>
             if official_version (courses d) (pk c) = None then
               (let refreshed = (case get_pk (courses d3) (pk off) of None \<Rightarrow> off | Some x \<Rightarrow> x);
                    off' = refreshed\<lparr>canonical_course_run := Some (pk run)\<rparr>
                in case save_course e now (canonical_course_run refreshed \<noteq> Some (pk run)) off' d3 of
                     Inl err \<Rightarrow> Inl err
                   | Inr (d4, log4) \<Rightarrow>
                       (case save_course e now (canonical_course_run c \<noteq> draft_version run)
                               (c\<lparr>canonical_course_run := draft_version run\<rparr>) d4 of
                          Inl err \<Rightarrow> Inl err
                        | Inr (d5, log5) \<Rightarrow> Inr (d5, off', log4 @ log5)))
             else Inr (d3, off, []))"
proof -
  have fold: "fold (\<lambda>entitlement d0.
                 if mode entitlement \<in> set ENTITLEMENT_MODES then
                   d0\<lparr>entitlements := fst (set_official_state (entitlement_relations (pk off))
                                             (entitlements d0) entitlement)\<rparr>
                 else d0)
              (filter (\<lambda>x. entitlement_course x = pk c) (entitlements d))
              (d\<lparr>courses := tbl\<rparr>) = dA"
    unfolding fold_entitlements dA by simp
  show ?thesis
    by (simp add: course_update_or_create_official_version.simps c st fold Let_def)
qed

lemma course_promote_Inl:
  assumes c: "get_pk (courses d) (pk c) = Some c"
    and st: "set_official_state course_relations (courses d) c = (tbl, off)"
    and dA: "dA = d\<lparr>courses := tbl,
                 entitlements := promote_all (entitlement_relations (pk off))
                     (filter (\<lambda>x. mode x \<in> set ENTITLEMENT_MODES)
                        (filter (\<lambda>x. entitlement_course x = pk c) (entitlements d)))
                     (entitlements d)\<rparr>"
    and act: "set_active_url_slug e now dA off (active_url_slug dA c) = Inl err"
  shows "course_update_or_create_official_version e now c run d = Inl err"
  unfolding course_promote_lhs[OF c st dA] by (simp add: act)

lemma course_promote_update:
  assumes c: "get_pk (courses d) (pk c) = Some c"
    and st: "set_official_state course_relations (courses d) c = (tbl, off)"
    and dA: "dA = d\<lparr>courses := tbl,
                 entitlements := promote_all (entitlement_relations (pk off))
                     (filter (\<lambda>x. mode x \<in> set ENTITLEMENT_MODES)
                        (filter (\<lambda>x. entitlement_course x = pk c) (entitlements d)))
                     (entitlements d)\<rparr>"
    and act: "set_active_url_slug e now dA off (active_url_slug dA c) = Inr d3"
    and some: "official_version (courses d) (pk c) \<noteq> None"
  shows "course_update_or_create_official_version e now c run d = Inr (d3, off, [])"
proof -
  from some obtain old where "official_version (courses d) (pk c) = Some old" by auto
  then show ?thesis unfolding course_promote_lhs[OF c st dA] by (simp add: act)
qed

lemma course_promote_Inr:
  assumes c: "get_pk (courses d) (pk c) = Some c" and dist: "distinct (map pk (course_runs d))"
    and st: "set_official_state course_relations (courses d) c = (tbl, off)"
    and dA: "dA = d\<lparr>courses := tbl,
                 entitlements := promote_all (entitlement_relations (pk off))
                     (filter (\<lambda>x. mode x \<in> set ENTITLEMENT_MODES)
                        (filter (\<lambda>x. entitlement_course x = pk c) (entitlements d)))
                     (entitlements d)\<rparr>"
    and act: "set_active_url_slug e now dA off (active_url_slug dA c) = Inr d3"
    and refreshed: "refreshed = (case get_pk (courses d3) (pk off) of None \<Rightarrow> off | Some x \<Rightarrow> x)"
    and ok: "course_update_or_create_official_version e now c run d = Inr X"
  shows "X =
     (if official_version (courses d) (pk c) = None then
        (d3\<lparr>courses :=
                  put (stamp now (canonical_course_run c \<noteq> draft_version run)
                         (c\<lparr>canonical_course_run := draft_version run\<rparr>))
                    (put (stamp now (canonical_course_run refreshed \<noteq> Some (pk run))
                            (refreshed\<lparr>canonical_course_run := Some (pk run)\<rparr>))
                       (courses d3))\<rparr>,
             refreshed\<lparr>canonical_course_run := Some (pk run)\<rparr>, [])
      else (d3, off, []))"
proof (cases "official_version (courses d) (pk c)")
  case (Some old)
  then have "official_version (courses d) (pk c) \<noteq> None" by simp
  from course_promote_update[OF c st dA act this, of run] ok have "X = (d3, off, [])" by simp
  then show ?thesis using Some by simp
next
  case None
  note True = None
  have "course_runs dA = course_runs d" by (simp add: dA)
  with restD(1)[OF set_active_url_slug_rest(1)[OF act]]
  have d3: "distinct (map pk (course_runs d3))" using dist by simp
  from ok obtain y z where
    s1: "save_course e now (canonical_course_run refreshed \<noteq> Some (pk run))
           (refreshed\<lparr>canonical_course_run := Some (pk run)\<rparr>) d3 = Inr y"
    and s2: "save_course e now (canonical_course_run c \<noteq> draft_version run)
           (c\<lparr>canonical_course_run := draft_version run\<rparr>) (fst y) = Inr z"
    and X: "X = (fst z, refreshed\<lparr>canonical_course_run := Some (pk run)\<rparr>, snd y @ snd z)"
    unfolding course_promote_lhs[OF c st dA]
    by (auto simp: act True Let_def refreshed[symmetric] split: sum.splits)
  note y = save_course_plain[OF d3 s1]
  have "distinct (map pk (course_runs (fst y)))" using d3 by (simp add: y)
  note z = save_course_plain[OF this s2]
  show ?thesis using True X by (simp add: y z)
qed

lemma run_promote_lhs:
  assumes R: "get_pk (course_runs d) (pk self) = Some R"
    and st: "set_official_state run_relations (course_runs d) R = (tbl, off)"
    and dB: "dB = d\<lparr>course_runs := tbl,
                      seats := promote_all (seat_relations (pk off))
                                 (filter (\<lambda>s. seat_course_run s = pk self) (seats d)) (seats d),
                      restricted_runs :=
                        (case find (\<lambda>x. restricted_course_run x = pk self) (restricted_runs d) of
                           None \<Rightarrow> restricted_runs d
                         | Some restricted_run \<Rightarrow>
                             fst (set_official_state (restriction_relations (pk off))
                                    (restricted_runs d) restricted_run))\<rparr>"
  shows "update_or_create_official_version e now self d =
     (case get_pk (courses d) (run_course self) of
        None \<Rightarrow> Inl DoesNotExist
      | Some c \<Rightarrow>
          (case course_update_or_create_official_version e now c off dB of
             Inl err \<Rightarrow> Inl err
           | Inr (d4, official_course, log4) \<Rightarrow>
               (case push_to_marketing e d4 (off\<lparr>slug := slug self, run_course := pk official_course\<rparr>) of
                  Inl err \<Rightarrow> Inl err
                | Inr push \<Rightarrow>
                    Inr (d4\<lparr>course_runs := put (off\<lparr>slug := slug self, run_course := pk official_course\<rparr>)
                                               (course_runs d4)\<rparr>,
                         off\<lparr>slug := slug self, run_course := pk official_course\<rparr>, log4))))"
proof -
  have nd: "\<not> draft off"
  proof (cases "draft R")
    case True
    then show ?thesis using set_official_state_result(1)[OF _ True st] by simp
  next
    case False
    then show ?thesis using st by (simp add: set_official_state_def)
  qed
  have lhs: "update_or_create_official_version e now self d =
     (case get_pk (courses d) (run_course self) of
        None \<Rightarrow> Inl DoesNotExist
      | Some c \<Rightarrow>
          (case course_update_or_create_official_version e now c off dB of
             Inl err \<Rightarrow> Inl err
           | Inr (d4, official_course, log4) \<Rightarrow>
               (let official' = off\<lparr>slug := slug self, run_course := pk official_course\<rparr>
                in case save_run e now True (status official') False official' d4 of
                     Inl err \<Rightarrow> Inl err
                   | Inr (d5, log5) \<Rightarrow> Inr (d5, official', log4 @ log5))))"
  proof (cases "find (\<lambda>x. restricted_course_run x = pk self) (restricted_runs d)")
    case None
    then show ?thesis
      by (simp add: update_or_create_official_version.simps R st fold_seats Let_def dB
          cong: option.case_cong)
  next
    case (Some rr)
    then show ?thesis
      by (simp add: update_or_create_official_version.simps R st fold_seats Let_def dB
          cong: option.case_cong)
  qed
  show ?thesis unfolding lhs
    by (simp add: Let_def save_run_official nd split: option.splits sum.splits prod.splits)
qed

subsection \<open>Lookups by key\<close>

lemma get_pk_map: "(\<And>x. pk (g x) = pk x) \<Longrightarrow> get_pk (map g tbl) p = map_option g (get_pk tbl p)"
  by (induction tbl) (auto simp: get_pk_def)

lemma get_pk_put:
  "get_pk (put x tbl) p = (if p = pk x then map_option (\<lambda>_. x) (get_pk tbl p) else get_pk tbl p)"
  by (induction tbl) (auto simp: get_pk_def put_def)

lemma get_pk_append:
  "get_pk (tbl @ [x]) p = (case get_pk tbl p of Some r \<Rightarrow> Some r | None \<Rightarrow> if pk x = p then Some x else None)"
  by (induction tbl) (auto simp: get_pk_def)

lemma get_pk_None: "p \<notin> pk ` set tbl \<Longrightarrow> get_pk tbl p = None"
  by (auto simp: get_pk_def find_None_iff)

text \<open>The courses after an activation are the courses before it, some with a new timestamp.\<close>

lemma set_active_url_slug_courses:
  assumes "set_active_url_slug e now d self s = Inr d'"
  obtains g where "courses d' = map g (courses d)"
    and "\<And>x. g x = x \<or> g x = x\<lparr>data_modified_timestamp := Some now\<rparr>"
proof -
  from set_active_url_slug_rest(2)[OF assms]
  show ?thesis
  proof
    assume "courses d' = courses d"
    then have "courses d' = map (\<lambda>x. x) (courses d)" by simp
    then show ?thesis by (rule that) simp
  next
    assume "courses d' = courses (set_data_modified_timestamp now self d)"
    then have "courses d' = map (\<lambda>c. if key c = key self then c\<lparr>data_modified_timestamp := Some now\<rparr> else c) (courses d)"
      by (simp add: set_data_modified_timestamp_def)
    then show ?thesis by (rule that) simp
  qed
qed

lemma stamp_simps [simp]:
  "pk (stamp now ch c) = pk c" "draft (stamp now ch c) = draft c"
  "draft_version (stamp now ch c) = draft_version c"
  "canonical_course_run (stamp now ch c) = canonical_course_run c"
  "partner (stamp now ch c) = partner c" "key (stamp now ch c) = key c"
  by (simp_all add: stamp_def)

text \<open>What a successful promotion of a run went through.\<close>

lemma run_promote_steps:
  assumes dist: "distinct (map pk (course_runs d))"
    and R: "get_pk (course_runs d) (pk self) = Some R"
    and c: "get_pk (courses d) (run_course self) = Some c"
    and ok: "update_or_create_official_version e now self d = Inr (d', official, log)"
  obtains tblR offR tblC offC dA d3 where
    "set_official_state run_relations (course_runs d) R = (tblR, offR)"
    "set_official_state course_relations (courses d) c = (tblC, offC)"
    "dA = promotion_stage d (pk self) (pk c) tblR offR tblC offC"
    "set_active_url_slug e now dA offC (active_url_slug dA c) = Inr d3"
    "official = offR\<lparr>slug := slug self, run_course := pk offC\<rparr>"
    "official_version (courses d) (pk c) \<noteq> None \<Longrightarrow>
       d' = d3\<lparr>course_runs := put official (course_runs d3)\<rparr>"
    "official_version (courses d) (pk c) = None \<Longrightarrow>
       d' = d3\<lparr>courses := first_promotion_courses now c offR
                             (case get_pk (courses d3) (pk offC) of None \<Rightarrow> offC | Some x \<Rightarrow> x)
                             (courses d3),
               course_runs := put official (course_runs d3)\<rparr>"
    "log = []"
proof -
  obtain tblR offR where sr: "set_official_state run_relations (course_runs d) R = (tblR, offR)"
    by (cases "set_official_state run_relations (course_runs d) R")
  obtain tblC offC where sc: "set_official_state course_relations (courses d) c = (tblC, offC)"
    by (cases "set_official_state course_relations (courses d) c")
  define dB where "dB = d\<lparr>course_runs := tblR,
            seats := promote_all (seat_relations (pk offR))
                       (filter (\<lambda>s. seat_course_run s = pk self) (seats d)) (seats d),
            restricted_runs :=
              (case find (\<lambda>x. restricted_course_run x = pk self) (restricted_runs d) of
                 None \<Rightarrow> restricted_runs d
               | Some restricted_run \<Rightarrow>
                   fst (set_official_state (restriction_relations (pk offR))
                          (restricted_runs d) restricted_run))\<rparr>"
  define dA where "dA = dB\<lparr>courses := tblC,
            entitlements := promote_all (entitlement_relations (pk offC))
                     (filter (\<lambda>x. mode x \<in> set ENTITLEMENT_MODES)
                        (filter (\<lambda>x. entitlement_course x = pk c) (entitlements dB)))
                     (entitlements dB)\<rparr>"
  have cB: "get_pk (courses dB) (pk c) = Some c" using get_pk_again[OF c] by (simp add: dB_def)
  have scB: "set_official_state course_relations (courses dB) c = (tblC, offC)"
    using sc by (simp add: dB_def)
  have ovB: "official_version (courses dB) (pk c) = official_version (courses d) (pk c)"
    by (simp add: dB_def)
  have distB: "distinct (map pk (course_runs dB))"
    using set_official_state_distinct[OF plain_relations(2) dist, of R] sr by (simp add: dB_def)
  note ok' = ok[unfolded run_promote_lhs[OF R sr dB_def] c option.case]
  obtain d4 oc log4 where
    cp: "course_update_or_create_official_version e now c offR dB = Inr (d4, oc, log4)"
  proof (cases "course_update_or_create_official_version e now c offR dB")
    case (Inl err)
    then show ?thesis using ok' by simp
  next
    case (Inr X)
    then show ?thesis using that by (cases X) auto
  qed
  note ok'' = ok'[unfolded cp sum.case prod.case]
  have d': "d' = d4\<lparr>course_runs := put official (course_runs d4)\<rparr>"
    and off: "official = offR\<lparr>slug := slug self, run_course := pk oc\<rparr>" and log: "log = log4"
    using ok'' by (cases "push_to_marketing e d4 (offR\<lparr>slug := slug self, run_course := pk oc\<rparr>)"; simp)+
  obtain d3 where act: "set_active_url_slug e now dA offC (active_url_slug dA c) = Inr d3"
    using cp course_promote_Inl[OF cB scB dA_def, of e now _ offR]
    by (cases "set_active_url_slug e now dA offC (active_url_slug dA c)") auto
  define refreshed where "refreshed = (case get_pk (courses d3) (pk offC) of None \<Rightarrow> offC | Some x \<Rightarrow> x)"
  note cp' = course_promote_Inr[OF cB distB scB dA_def act refreshed_def cp, unfolded ovB]
  have dA': "dA = promotion_stage d (pk self) (pk c) tblR offR tblC offC"
    by (simp add: dA_def dB_def promotion_stage_def)
  have pk_ref: "pk refreshed = pk offC"
    unfolding refreshed_def by (auto split: option.splits dest: get_pk_Some)
  have o: "official = offR\<lparr>slug := slug self, run_course := pk offC\<rparr>"
    using cp' off pk_ref by (auto split: if_splits)
  show ?thesis
  proof (rule that[OF sr sc dA' act o])
    assume "official_version (courses d) (pk c) \<noteq> None"
    then show "d' = d3\<lparr>course_runs := put official (course_runs d3)\<rparr>"
      using cp' d' by auto
  next
    assume "official_version (courses d) (pk c) = None"
    then show "d' = d3\<lparr>courses := first_promotion_courses now c offR
                             (case get_pk (courses d3) (pk offC) of None \<Rightarrow> offC | Some x \<Rightarrow> x)
                             (courses d3),
               course_runs := put official (course_runs d3)\<rparr>"
      using cp' d' unfolding refreshed_def[symmetric] first_promotion_courses_def by auto
  next
    show "log = []" using cp' log by (auto split: if_splits)
  qed
qed

lemma set_official_state_course_update:
  assumes dist: "distinct (map pk (courses d))"
    and old: "official_version (courses d) (pk c) = Some old" and dr: "draft c"
    and sc: "set_official_state course_relations (courses d) c = (tblC, offC)"
  shows "map (\<lambda>x. (pk x, canonical_course_run x)) tblC = map (\<lambda>x. (pk x, canonical_course_run x)) (courses d)"
proof -
  from set_official_state_result(3,5)[OF plain_relations(1) dr sc] old
  have o: "pk offC = pk old" "tblC = put offC (courses d)"
    and "offC = course_relations (Some old) (c\<lparr>pk := pk offC, draft := False, draft_version := Some (pk c)\<rparr>)"
    by auto
  then have can: "canonical_course_run offC = canonical_course_run old"
    by (simp add: course_relations_def)
  have mem: "old \<in> set (courses d)" using official_version_Some[OF old] by simp
  show ?thesis unfolding o(2) put_def map_map
  proof (rule map_cong[OF refl])
    fix x assume x: "x \<in> set (courses d)"
    show "((\<lambda>x. (pk x, canonical_course_run x)) \<circ> (\<lambda>r. if pk r = pk offC then offC else r)) x
            = (pk x, canonical_course_run x)"
      using pk_eq[OF dist x mem] o(1) can by auto
  qed
qed

text \<open>
  Claim C9. A draft run of a draft course is promoted, in a store where course runs and
  courses have distinct primary keys, and the promotion succeeds. If the course had no
  official row, the official course now stored, the course of the official run, has the
  official run as its \<^verbatim>\<open>canonical_course_run\<close>, and the draft course has the draft run.
  If the course had an official row, every course row has the \<^verbatim>\<open>canonical_course_run\<close>
  it had.
\<close>

theorem canonical_course_run_on_first_promotion:
  assumes dist_runs: "distinct (map pk (course_runs d))"
    and dist_courses: "distinct (map pk (courses d))"
    and R: "get_pk (course_runs d) (pk self) = Some R" and draft_run: "draft R"
    and c: "get_pk (courses d) (run_course self) = Some c" and draft_course: "draft c"
    and ok: "update_or_create_official_version e now self d = Inr (d', official, log)"
  shows "(official_version (courses d) (pk c) = None \<longrightarrow>
            (\<exists>oc. get_pk (courses d') (run_course official) = Some oc \<and> \<not> draft oc
                  \<and> draft_version oc = Some (pk c)
                  \<and> canonical_course_run oc = Some (pk official))
          \<and> (\<exists>c'. get_pk (courses d') (pk c) = Some c' \<and> draft c'
                  \<and> canonical_course_run c' = Some (pk self))
          \<and> draft_version official = Some (pk self))
       \<and> (official_version (courses d) (pk c) \<noteq> None \<longrightarrow>
            map (\<lambda>x. (pk x, canonical_course_run x)) (courses d')
              = map (\<lambda>x. (pk x, canonical_course_run x)) (courses d))"
proof -
  obtain tblR offR tblC offC dA d3 where
    sr: "set_official_state run_relations (course_runs d) R = (tblR, offR)"
    and sc: "set_official_state course_relations (courses d) c = (tblC, offC)"
    and dA: "dA = promotion_stage d (pk self) (pk c) tblR offR tblC offC"
    and act: "set_active_url_slug e now dA offC (active_url_slug dA c) = Inr d3"
    and off: "official = offR\<lparr>slug := slug self, run_course := pk offC\<rparr>"
    and upd: "official_version (courses d) (pk c) \<noteq> None \<Longrightarrow>
       d' = d3\<lparr>course_runs := put official (course_runs d3)\<rparr>"
    and cre: "official_version (courses d) (pk c) = None \<Longrightarrow>
       d' = d3\<lparr>courses := first_promotion_courses now c offR
                             (case get_pk (courses d3) (pk offC) of None \<Rightarrow> offC | Some x \<Rightarrow> x)
                             (courses d3),
               course_runs := put official (course_runs d3)\<rparr>"
    and "log = []"
    by (rule run_promote_steps[OF dist_runs R c ok]) (rule that)
  have cA: "courses dA = tblC" by (simp add: dA promotion_stage_def)
  from set_active_url_slug_courses[OF act] obtain g where
    g: "courses d3 = map g tblC" and g_cases: "\<And>x. g x = x \<or> g x = x\<lparr>data_modified_timestamp := Some now\<rparr>"
    unfolding cA by blast
  have g_pk: "pk (g x) = pk x" and g_can: "canonical_course_run (g x) = canonical_course_run x"
    and g_draft: "draft (g x) = draft x" and g_dv: "draft_version (g x) = draft_version x" for x
    using g_cases[of x] by auto
  have offR: "\<not> draft offR" "draft_version offR = Some (pk R)"
    using set_official_state_result(1,2)[OF plain_relations(2) draft_run sr] by auto
  have pkR: "pk R = pk self" using get_pk_Some[OF R] by simp
  have c_mem: "c \<in> set (courses d)" using get_pk_Some[OF c] by simp
  have pk_off: "pk official = pk offR" by (simp add: off)
  have creating: "(\<exists>oc. get_pk (courses d') (run_course official) = Some oc \<and> \<not> draft oc
                  \<and> draft_version oc = Some (pk c)
                  \<and> canonical_course_run oc = Some (pk official))
          \<and> (\<exists>c'. get_pk (courses d') (pk c) = Some c' \<and> draft c'
                  \<and> canonical_course_run c' = Some (pk self))"
    if none: "official_version (courses d) (pk c) = None"
  proof -
    from set_official_state_result(1,2,4)[OF plain_relations(1) draft_course sc] none
    have oc: "\<not> draft offC" "draft_version offC = Some (pk c)"
      "pk offC = new_pk (map pk (courses d))" "tblC = courses d @ [offC]" by auto
    have ne: "pk offC \<noteq> pk c" using new_pk_fresh[of "pk c" "map pk (courses d)"] c_mem oc(3) by auto
    have fresh: "get_pk (courses d) (pk offC) = None"
      unfolding oc(3) by (rule get_pk_None) (rule new_pk_notin)
    have g1: "get_pk (courses d3) (pk offC) = Some (g offC)"
      unfolding g by (simp add: get_pk_map[of g, OF g_pk] oc(4) get_pk_append fresh g_pk)
    have g2: "get_pk (courses d3) (pk c) = Some (g c)"
      unfolding g using get_pk_again[OF c] by (simp add: get_pk_map[of g, OF g_pk] oc(4) get_pk_append g_pk)
    have d'c: "courses d' = first_promotion_courses now c offR (g offC) (courses d3)"
      using cre[OF none] g1 by simp
    have "get_pk (courses d') (pk offC)
            = Some (stamp now (canonical_course_run (g offC) \<noteq> Some (pk offR))
                      ((g offC)\<lparr>canonical_course_run := Some (pk offR)\<rparr>))"
      unfolding d'c first_promotion_courses_def using ne g1 by (simp add: get_pk_put g_pk)
    moreover have "get_pk (courses d') (pk c)
            = Some (stamp now (canonical_course_run c \<noteq> draft_version offR)
                      (c\<lparr>canonical_course_run := draft_version offR\<rparr>))"
      unfolding d'c first_promotion_courses_def using ne g2 by (simp add: get_pk_put g_pk)
    ultimately show ?thesis
      using oc(1,2) offR pkR draft_course by (simp add: off g_draft g_dv)
  qed
  have updating: "map (\<lambda>x. (pk x, canonical_course_run x)) (courses d')
              = map (\<lambda>x. (pk x, canonical_course_run x)) (courses d)"
    if some: "official_version (courses d) (pk c) \<noteq> None"
  proof -
    from some obtain old where old: "official_version (courses d) (pk c) = Some old" by auto
    have "courses d' = map g tblC" using upd[OF some] g by simp
    then have "map (\<lambda>x. (pk x, canonical_course_run x)) (courses d')
                = map (\<lambda>x. (pk x, canonical_course_run x)) tblC"
      by (simp add: g_pk g_can)
    then show ?thesis
      using set_official_state_course_update[OF dist_courses old draft_course sc] by simp
  qed
  show ?thesis using creating updating offR(2) pkR by (simp add: off)
qed

lemmas promote_defs = update_or_create_official_version.simps
  course_update_or_create_official_version.simps save_course.simps save_run.simps
  handle_status_change.simps set_official_state_def course_relations_def run_relations_def
  seat_relations_def entitlement_relations_def restriction_relations_def active_url_slug_def
  mk_entitlement_def review_db_def promoted_db_def ENTITLEMENT_MODES_def VERIFIED_def PROFESSIONAL_def
  EXECUTIVE_EDUCATION_def PAID_EXECUTIVE_EDUCATION_def PAID_BOOTCAMP_def mk_seat_def

lemma review_db_promoted:
  "update_or_create_official_version example_env 100 (mk_run 1 True None 1 Reviewed None None) review_db
     = Inr (promoted_db, mk_run 2 False (Some 1) 2 Reviewed None None, [])"
  by (simp add: promote_defs ex_defs slug_defs run_defs Let_def)

lemma promoted_db_promoted:
  "update_or_create_official_version example_env 200 (mk_run 1 True None 1 Reviewed None None) promoted_db
     = Inr (promoted_db\<lparr>courses := [(mk_course 1 True None ''course-v1:X+1'')
                     \<lparr>canonical_course_run := Some 1, data_modified_timestamp := Some 5\<rparr>,
                  (mk_course 2 False (Some 1) ''course-v1:X+1'')
                     \<lparr>canonical_course_run := Some 2, data_modified_timestamp := Some 5\<rparr>]\<rparr>,
            mk_run 2 False (Some 1) 2 Reviewed None None, [])"
  by (simp add: promote_defs ex_defs slug_defs run_defs Let_def)

text \<open>The tables of the children after a promotion.\<close>

lemma run_promote_children:
  assumes dist: "distinct (map pk (course_runs d))"
    and R: "get_pk (course_runs d) (pk self) = Some R"
    and c: "get_pk (courses d) (run_course self) = Some c"
    and ok: "update_or_create_official_version e now self d = Inr (d', official, log)"
  shows "seats d' = promote_all (seat_relations (pk official))
                      (filter (\<lambda>s. seat_course_run s = pk self) (seats d)) (seats d)"
    and "entitlements d' = promote_all (entitlement_relations (run_course official))
                     (filter (\<lambda>x. mode x \<in> set ENTITLEMENT_MODES)
                        (filter (\<lambda>x. entitlement_course x = pk c) (entitlements d)))
                     (entitlements d)"
    and "restricted_runs d' =
           (case find (\<lambda>x. restricted_course_run x = pk self) (restricted_runs d) of
              None \<Rightarrow> restricted_runs d
            | Some restricted_run \<Rightarrow>
                fst (set_official_state (restriction_relations (pk official))
                       (restricted_runs d) restricted_run))"
proof -
  obtain tblR offR tblC offC dA d3 where
    sr: "set_official_state run_relations (course_runs d) R = (tblR, offR)"
    and sc: "set_official_state course_relations (courses d) c = (tblC, offC)"
    and dA: "dA = promotion_stage d (pk self) (pk c) tblR offR tblC offC"
    and act: "set_active_url_slug e now dA offC (active_url_slug dA c) = Inr d3"
    and off: "official = offR\<lparr>slug := slug self, run_course := pk offC\<rparr>"
    and upd: "official_version (courses d) (pk c) \<noteq> None \<Longrightarrow>
       d' = d3\<lparr>course_runs := put official (course_runs d3)\<rparr>"
    and cre: "official_version (courses d) (pk c) = None \<Longrightarrow>
       d' = d3\<lparr>courses := first_promotion_courses now c offR
                             (case get_pk (courses d3) (pk offC) of None \<Rightarrow> offC | Some x \<Rightarrow> x)
                             (courses d3),
               course_runs := put official (course_runs d3)\<rparr>"
    and "log = []"
    by (rule run_promote_steps[OF dist R c ok]) (rule that)
  note r = restD[OF set_active_url_slug_rest(1)[OF act]]
  have "seats d' = seats d3 \<and> entitlements d' = entitlements d3 \<and> restricted_runs d' = restricted_runs d3"
    using upd cre by (cases "official_version (courses d) (pk c)") auto
  then have "seats d' = seats dA" "entitlements d' = entitlements dA" "restricted_runs d' = restricted_runs dA"
    using r by simp_all
  then show "seats d' = promote_all (seat_relations (pk official))
                      (filter (\<lambda>s. seat_course_run s = pk self) (seats d)) (seats d)"
    and "entitlements d' = promote_all (entitlement_relations (run_course official))
                     (filter (\<lambda>x. mode x \<in> set ENTITLEMENT_MODES)
                        (filter (\<lambda>x. entitlement_course x = pk c) (entitlements d)))
                     (entitlements d)"
    and "restricted_runs d' =
           (case find (\<lambda>x. restricted_course_run x = pk self) (restricted_runs d) of
              None \<Rightarrow> restricted_runs d
            | Some restricted_run \<Rightarrow>
                fst (set_official_state (restriction_relations (pk official))
                       (restricted_runs d) restricted_run))"
    by (simp_all add: dA promotion_stage_def off del: filter_filter cong: option.case_cong)
qed

text \<open>The official counterparts of a row, before and after the rows of a list are promoted.\<close>

lemma promote_all_counterparts:
  assumes pl: "plain rel" and dist: "distinct (map pk tbl)" and xs: "set xs \<subseteq> set tbl"
    and x: "x \<in> set tbl" "x \<notin> set xs \<or> \<not> draft x"
  shows "{y \<in> set (promote_all rel xs tbl). draft_version y = Some (pk x)}
           = {y \<in> set tbl. draft_version y = Some (pk x)}"
proof -
  have ne: "draft obj \<longrightarrow> pk obj \<noteq> pk x" if "obj \<in> set xs" for obj
    using that x xs pk_eq[OF dist _ x(1), of obj] by auto
  show ?thesis
  proof (intro set_eqI iffI)
    fix y assume "y \<in> {y \<in> set (promote_all rel xs tbl). draft_version y = Some (pk x)}"
    then have y: "y \<in> set (promote_all rel xs tbl)" "draft_version y = Some (pk x)" by auto
    from promote_all_rows[OF pl y(1)] show "y \<in> {y \<in> set tbl. draft_version y = Some (pk x)}"
    proof
      assume "y \<in> set tbl"
      then show ?thesis using y(2) by simp
    next
      assume "\<exists>obj \<in> set xs. \<exists>prev. draft obj
          \<and> y = rel prev (obj\<lparr>pk := pk y, draft := False, draft_version := Some (pk obj)\<rparr>)"
      then obtain obj prev where o: "obj \<in> set xs" "draft obj"
        "y = rel prev (obj\<lparr>pk := pk y, draft := False, draft_version := Some (pk obj)\<rparr>)" by auto
      have "draft_version y = Some (pk obj)" by (subst o(3)) (simp add: plainD[OF pl])
      then show ?thesis using y(2) ne[OF o(1)] o(2) by simp
    qed
  next
    fix y assume "y \<in> {y \<in> set tbl. draft_version y = Some (pk x)}"
    then have y: "y \<in> set tbl" "draft_version y = Some (pk x)" by auto
    have "\<forall>obj \<in> set xs. draft obj \<longrightarrow> draft_version y \<noteq> Some (pk obj)"
    proof (intro ballI impI)
      fix obj assume "obj \<in> set xs" "draft obj"
      then have "pk obj \<noteq> pk x" using ne by blast
      then show "draft_version y \<noteq> Some (pk obj)" using y(2) by simp
    qed
    then have "y \<in> set (promote_all rel xs tbl)"
      by (rule promote_all_keeps[OF pl dist y(1)])
    then show "y \<in> {y \<in> set (promote_all rel xs tbl). draft_version y = Some (pk x)}"
      using y(2) by simp
  qed
qed

text \<open>
  Claim C8. A promotion of the draft run \<open>self\<close> of the course \<open>c\<close> succeeds, in a store
  whose tables have distinct primary keys, and returns the official run. Then every draft
  seat of the run has an official counterpart, its copy attached to the official run;
  every draft entitlement of the course with a mode of \<^verbatim>\<open>Seat.ENTITLEMENT_MODES\<close> has
  one, its copy attached to the course of the official run; the restriction record of the
  run, if there is one and it is a draft, has one, its copy attached to the official run.
  For every other seat and entitlement, the official counterparts are those that were in
  the store, and every row of the three tables is a row that was there or one of these
  copies.
\<close>

theorem promotion_cascade:
  assumes dist_runs: "distinct (map pk (course_runs d))"
    and dist_seats: "distinct (map pk (seats d))"
    and dist_entitlements: "distinct (map pk (entitlements d))"
    and dist_restricted: "distinct (map pk (restricted_runs d))"
    and R: "get_pk (course_runs d) (pk self) = Some R"
    and c: "get_pk (courses d) (run_course self) = Some c"
    and ok: "update_or_create_official_version e now self d = Inr (d', official, log)"
  shows "(\<forall>s \<in> set (seats d). seat_course_run s = pk self \<and> draft s \<longrightarrow>
            (\<exists>s'. official_version (seats d') (pk s) = Some s'
                 \<and> s' = s\<lparr>pk := pk s', draft := False, draft_version := Some (pk s),
                          seat_course_run := pk official\<rparr>))
       \<and> (\<forall>x \<in> set (entitlements d).
            entitlement_course x = pk c \<and> mode x \<in> set ENTITLEMENT_MODES \<and> draft x \<longrightarrow>
            (\<exists>x'. official_version (entitlements d') (pk x) = Some x'
                 \<and> x' = x\<lparr>pk := pk x', draft := False, draft_version := Some (pk x),
                          entitlement_course := run_course official\<rparr>))
       \<and> (\<forall>r. find (\<lambda>x. restricted_course_run x = pk self) (restricted_runs d) = Some r \<and> draft r \<longrightarrow>
            (\<exists>r'. official_version (restricted_runs d') (pk r) = Some r'
                 \<and> r' = r\<lparr>pk := pk r', draft := False, draft_version := Some (pk r),
                          restricted_course_run := pk official\<rparr>))
       \<and> (\<forall>s \<in> set (seats d). \<not> (seat_course_run s = pk self \<and> draft s) \<longrightarrow>
            {y \<in> set (seats d'). draft_version y = Some (pk s)}
              = {y \<in> set (seats d). draft_version y = Some (pk s)})
       \<and> (\<forall>x \<in> set (entitlements d).
            \<not> (entitlement_course x = pk c \<and> mode x \<in> set ENTITLEMENT_MODES \<and> draft x) \<longrightarrow>
            {y \<in> set (entitlements d'). draft_version y = Some (pk x)}
              = {y \<in> set (entitlements d). draft_version y = Some (pk x)})
       \<and> (\<forall>y \<in> set (seats d'). y \<in> set (seats d)
              \<or> (\<exists>s \<in> set (seats d). seat_course_run s = pk self \<and> draft s
                    \<and> y = s\<lparr>pk := pk y, draft := False, draft_version := Some (pk s),
                             seat_course_run := pk official\<rparr>))
       \<and> (\<forall>y \<in> set (entitlements d'). y \<in> set (entitlements d)
              \<or> (\<exists>x \<in> set (entitlements d).
                    entitlement_course x = pk c \<and> mode x \<in> set ENTITLEMENT_MODES \<and> draft x
                    \<and> y = x\<lparr>pk := pk y, draft := False, draft_version := Some (pk x),
                             entitlement_course := run_course official\<rparr>))
       \<and> (\<forall>y \<in> set (restricted_runs d'). y \<in> set (restricted_runs d)
              \<or> (\<exists>r. find (\<lambda>x. restricted_course_run x = pk self) (restricted_runs d) = Some r \<and> draft r
                    \<and> y = r\<lparr>pk := pk y, draft := False, draft_version := Some (pk r),
                             restricted_course_run := pk official\<rparr>))"
proof -
  note tables = run_promote_children[OF dist_runs R c ok]
  let ?S = "filter (\<lambda>s. seat_course_run s = pk self) (seats d)"
  let ?E = "filter (\<lambda>x. mode x \<in> set ENTITLEMENT_MODES)
              (filter (\<lambda>x. entitlement_course x = pk c) (entitlements d))"
  have dS: "distinct (map pk ?S)" using dist_seats by (rule distinct_map_filter)
  have dE: "distinct (map pk ?E)" using dist_entitlements by (intro distinct_map_filter)
  have seats_in: "\<exists>s'. official_version (seats d') (pk s) = Some s'
                 \<and> s' = s\<lparr>pk := pk s', draft := False, draft_version := Some (pk s),
                          seat_course_run := pk official\<rparr>"
    if "s \<in> set (seats d)" "seat_course_run s = pk self" "draft s" for s
  proof -
    have "s \<in> set ?S" using that by simp
    from promote_all_official[OF plain_relations(3) dist_seats dS this that(3), of "pk official"]
    show ?thesis unfolding tables(1) by (auto simp: seat_relations_def)
  qed
  have ent_in: "\<exists>x'. official_version (entitlements d') (pk x) = Some x'
                 \<and> x' = x\<lparr>pk := pk x', draft := False, draft_version := Some (pk x),
                          entitlement_course := run_course official\<rparr>"
    if "x \<in> set (entitlements d)" "entitlement_course x = pk c" "mode x \<in> set ENTITLEMENT_MODES" "draft x" for x
  proof -
    have "x \<in> set ?E" using that by simp
    from promote_all_official[OF plain_relations(4) dist_entitlements dE this that(4), of "run_course official"]
    show ?thesis unfolding tables(2) by (auto simp: entitlement_relations_def)
  qed
  have restr_in: "\<exists>r'. official_version (restricted_runs d') (pk r) = Some r'
                 \<and> r' = r\<lparr>pk := pk r', draft := False, draft_version := Some (pk r),
                          restricted_course_run := pk official\<rparr>"
    if f: "find (\<lambda>x. restricted_course_run x = pk self) (restricted_runs d) = Some r" and dr: "draft r" for r
  proof -
    obtain tbl off where st: "set_official_state (restriction_relations (pk official)) (restricted_runs d) r = (tbl, off)"
      by (cases "set_official_state (restriction_relations (pk official)) (restricted_runs d) r")
    have t: "restricted_runs d' = tbl" unfolding tables(3) f by (simp add: st)
    from set_official_state_official[OF plain_relations(5) dist_restricted dr st]
      set_official_state_result(3)[OF plain_relations(5) dr st]
    show ?thesis unfolding t by (auto simp: restriction_relations_def)
  qed
  have seats_out: "{y \<in> set (seats d'). draft_version y = Some (pk s)}
              = {y \<in> set (seats d). draft_version y = Some (pk s)}"
    if "s \<in> set (seats d)" "\<not> (seat_course_run s = pk self \<and> draft s)" for s
    unfolding tables(1)
    by (rule promote_all_counterparts[OF plain_relations(3) dist_seats]) (use that in auto)
  have ent_out: "{y \<in> set (entitlements d'). draft_version y = Some (pk x)}
              = {y \<in> set (entitlements d). draft_version y = Some (pk x)}"
    if "x \<in> set (entitlements d)"
      "\<not> (entitlement_course x = pk c \<and> mode x \<in> set ENTITLEMENT_MODES \<and> draft x)" for x
    unfolding tables(2)
    by (rule promote_all_counterparts[OF plain_relations(4) dist_entitlements]) (use that in auto)
  have seats_rows: "y \<in> set (seats d)
              \<or> (\<exists>s \<in> set (seats d). seat_course_run s = pk self \<and> draft s
                    \<and> y = s\<lparr>pk := pk y, draft := False, draft_version := Some (pk s),
                             seat_course_run := pk official\<rparr>)"
    if "y \<in> set (seats d')" for y
    using promote_all_rows[OF plain_relations(3) that[unfolded tables(1)]]
    by (auto simp: seat_relations_def)
  have ent_rows: "y \<in> set (entitlements d)
              \<or> (\<exists>x \<in> set (entitlements d).
                    entitlement_course x = pk c \<and> mode x \<in> set ENTITLEMENT_MODES \<and> draft x
                    \<and> y = x\<lparr>pk := pk y, draft := False, draft_version := Some (pk x),
                             entitlement_course := run_course official\<rparr>)"
    if "y \<in> set (entitlements d')" for y
    using promote_all_rows[OF plain_relations(4) that[unfolded tables(2)]]
    by (auto simp: entitlement_relations_def)
  have restr_rows: "y \<in> set (restricted_runs d)
              \<or> (\<exists>r. find (\<lambda>x. restricted_course_run x = pk self) (restricted_runs d) = Some r \<and> draft r
                    \<and> y = r\<lparr>pk := pk y, draft := False, draft_version := Some (pk r),
                             restricted_course_run := pk official\<rparr>)"
    if y: "y \<in> set (restricted_runs d')" for y
  proof (cases "find (\<lambda>x. restricted_course_run x = pk self) (restricted_runs d)")
    case None
    then show ?thesis using y tables(3) by simp
  next
    case (Some r)
    obtain tbl off where st: "set_official_state (restriction_relations (pk official)) (restricted_runs d) r = (tbl, off)"
      by (cases "set_official_state (restriction_relations (pk official)) (restricted_runs d) r")
    have t: "restricted_runs d' = tbl" unfolding tables(3) Some by (simp add: st)
    show ?thesis
    proof (cases "draft r")
      case True
      from set_official_state_rows[OF st] y t have "y = off \<or> y \<in> set (restricted_runs d)" by auto
      then show ?thesis
        using set_official_state_result(3)[OF plain_relations(5) True st] Some True
        by (auto simp: restriction_relations_def)
    next
      case False
      then have "tbl = restricted_runs d" using st by (simp add: set_official_state_def)
      then show ?thesis using y t by simp
    qed
  qed
  show ?thesis
  proof (intro conjI ballI allI impI)
    fix s assume "s \<in> set (seats d)" "seat_course_run s = pk self \<and> draft s"
    then show "\<exists>s'. official_version (seats d') (pk s) = Some s'
                 \<and> s' = s\<lparr>pk := pk s', draft := False, draft_version := Some (pk s),
                          seat_course_run := pk official\<rparr>"
      using seats_in by blast
  next
    fix x assume "x \<in> set (entitlements d)"
      "entitlement_course x = pk c \<and> mode x \<in> set ENTITLEMENT_MODES \<and> draft x"
    then show "\<exists>x'. official_version (entitlements d') (pk x) = Some x'
                 \<and> x' = x\<lparr>pk := pk x', draft := False, draft_version := Some (pk x),
                          entitlement_course := run_course official\<rparr>"
      using ent_in by blast
  next
    fix r assume "find (\<lambda>x. restricted_course_run x = pk self) (restricted_runs d) = Some r \<and> draft r"
    then show "\<exists>r'. official_version (restricted_runs d') (pk r) = Some r'
                 \<and> r' = r\<lparr>pk := pk r', draft := False, draft_version := Some (pk r),
                          restricted_course_run := pk official\<rparr>"
      using restr_in by blast
  next
    fix s assume "s \<in> set (seats d)" "\<not> (seat_course_run s = pk self \<and> draft s)"
    then show "{y \<in> set (seats d'). draft_version y = Some (pk s)}
              = {y \<in> set (seats d). draft_version y = Some (pk s)}"
      by (rule seats_out)
  next
    fix x assume "x \<in> set (entitlements d)"
      "\<not> (entitlement_course x = pk c \<and> mode x \<in> set ENTITLEMENT_MODES \<and> draft x)"
    then show "{y \<in> set (entitlements d'). draft_version y = Some (pk x)}
              = {y \<in> set (entitlements d). draft_version y = Some (pk x)}"
      by (rule ent_out)
  next
    fix y assume "y \<in> set (seats d')"
    then show "y \<in> set (seats d)
              \<or> (\<exists>s \<in> set (seats d). seat_course_run s = pk self \<and> draft s
                    \<and> y = s\<lparr>pk := pk y, draft := False, draft_version := Some (pk s),
                             seat_course_run := pk official\<rparr>)"
      by (rule seats_rows)
  next
    fix y assume "y \<in> set (entitlements d')"
    then show "y \<in> set (entitlements d)
              \<or> (\<exists>x \<in> set (entitlements d).
                    entitlement_course x = pk c \<and> mode x \<in> set ENTITLEMENT_MODES \<and> draft x
                    \<and> y = x\<lparr>pk := pk y, draft := False, draft_version := Some (pk x),
                             entitlement_course := run_course official\<rparr>)"
      by (rule ent_rows)
  next
    fix y assume "y \<in> set (restricted_runs d')"
    then show "y \<in> set (restricted_runs d)
              \<or> (\<exists>r. find (\<lambda>x. restricted_course_run x = pk self) (restricted_runs d) = Some r \<and> draft r
                    \<and> y = r\<lparr>pk := pk y, draft := False, draft_version := Some (pk r),
                             restricted_course_run := pk official\<rparr>)"
      by (rule restr_rows)
  qed
qed

lemma review_db_rows:
  "distinct (map pk (course_runs review_db))" "distinct (map pk (courses review_db))"
  "distinct (map pk (seats review_db))" "distinct (map pk (entitlements review_db))"
  "distinct (map pk (restricted_runs review_db))"
  "get_pk (course_runs review_db) (pk (mk_run 1 True None 1 Reviewed None None))
     = Some (mk_run 1 True None 1 Reviewed None None)"
  "get_pk (courses review_db) (run_course (mk_run 1 True None 1 Reviewed None None))
     = Some ((mk_course 1 True None ''course-v1:X+1'')
               \<lparr>canonical_course_run := Some 1, data_modified_timestamp := Some 5\<rparr>)"
  by (simp_all add: promote_defs ex_defs run_defs get_pk_def)

lemma promoted_db_rows:
  "distinct (map pk (course_runs promoted_db))" "distinct (map pk (courses promoted_db))"
  "distinct (map pk (seats promoted_db))" "distinct (map pk (entitlements promoted_db))"
  "distinct (map pk (restricted_runs promoted_db))"
  "get_pk (course_runs promoted_db) (pk (mk_run 1 True None 1 Reviewed None None))
     = Some (mk_run 1 True None 1 Reviewed None None)"
  "get_pk (courses promoted_db) (run_course (mk_run 1 True None 1 Reviewed None None))
     = Some ((mk_course 1 True None ''course-v1:X+1'')
               \<lparr>canonical_course_run := Some 1, data_modified_timestamp := Some 5\<rparr>)"
  by (simp_all add: promote_defs ex_defs run_defs get_pk_def)

text \<open>
  In \<open>review_db\<close> the course has no official row: the promotion creates course 2 with the
  official run 2 as canonical run. Promoting again, from \<open>promoted_db\<close>, leaves the
  canonical runs as they are.
\<close>

theorem canonical_course_run_on_first_promotion_witness:
  "distinct (map pk (course_runs review_db)) \<and> distinct (map pk (courses review_db))
   \<and> draft (mk_run 1 True None 1 Reviewed None None)
   \<and> official_version (courses review_db) 1 = None
   \<and> update_or_create_official_version example_env 100 (mk_run 1 True None 1 Reviewed None None) review_db
        = Inr (promoted_db, mk_run 2 False (Some 1) 2 Reviewed None None, [])
   \<and> (\<exists>oc. get_pk (courses promoted_db) 2 = Some oc \<and> \<not> draft oc \<and> draft_version oc = Some 1
            \<and> canonical_course_run oc = Some 2)
   \<and> (\<exists>c'. get_pk (courses promoted_db) 1 = Some c' \<and> draft c' \<and> canonical_course_run c' = Some 1)
   \<and> official_version (courses promoted_db) 1 \<noteq> None
   \<and> (\<exists>d'. update_or_create_official_version example_env 200 (mk_run 1 True None 1 Reviewed None None) promoted_db
               = Inr (d', mk_run 2 False (Some 1) 2 Reviewed None None, [])
          \<and> map (\<lambda>x. (pk x, canonical_course_run x)) (courses d') = [(1, Some 1), (2, Some 2)])"
proof -
  have dr: "draft (mk_run 1 True None 1 Reviewed None None)"
    "draft ((mk_course 1 True None ''course-v1:X+1'')
               \<lparr>canonical_course_run := Some 1, data_modified_timestamp := Some 5\<rparr>)"
    by (simp_all add: ex_defs run_defs)
  have none: "official_version (courses review_db) 1 = None"
    and some: "official_version (courses promoted_db) 1 \<noteq> None"
    by (simp_all add: promote_defs ex_defs official_version_def)
  note first = canonical_course_run_on_first_promotion[OF review_db_rows(1,2,6) dr(1) review_db_rows(7) dr(2)
      review_db_promoted]
  note second = canonical_course_run_on_first_promotion[OF promoted_db_rows(1,2,6) dr(1) promoted_db_rows(7) dr(2)
      promoted_db_promoted]
  have p: "pk ((mk_course 1 True None ''course-v1:X+1'')
               \<lparr>canonical_course_run := Some 1, data_modified_timestamp := Some 5\<rparr>) = 1"
    "run_course (mk_run 2 False (Some 1) 2 Reviewed None None) = 2"
    "pk (mk_run 2 False (Some 1) 2 Reviewed None None) = 2"
    "pk (mk_run 1 True None 1 Reviewed None None) = 1"
    by (simp_all add: ex_defs run_defs)
  from first none have a: "(\<exists>oc. get_pk (courses promoted_db) 2 = Some oc \<and> \<not> draft oc \<and> draft_version oc = Some 1
            \<and> canonical_course_run oc = Some 2)
      \<and> (\<exists>c'. get_pk (courses promoted_db) 1 = Some c' \<and> draft c' \<and> canonical_course_run c' = Some 1)"
    unfolding p by simp
  from second some have b: "map (\<lambda>x. (pk x, canonical_course_run x))
        (courses (promoted_db\<lparr>courses := [(mk_course 1 True None ''course-v1:X+1'')
                     \<lparr>canonical_course_run := Some 1, data_modified_timestamp := Some 5\<rparr>,
                  (mk_course 2 False (Some 1) ''course-v1:X+1'')
                     \<lparr>canonical_course_run := Some 2, data_modified_timestamp := Some 5\<rparr>]\<rparr>))
      = map (\<lambda>x. (pk x, canonical_course_run x)) (courses promoted_db)"
    unfolding p by simp
  have c: "map (\<lambda>x. (pk x, canonical_course_run x)) (courses promoted_db) = [(1, Some 1), (2, Some 2)]"
    by (simp add: promote_defs ex_defs)
  show ?thesis
    using review_db_rows(1,2) dr(1) none review_db_promoted a some promoted_db_promoted b c by simp
qed

text \<open>
  In \<open>review_db\<close> both seats of run 1, the verified entitlement of course 1 and the
  restriction record get official rows, attached to run 2 and course 2; the audit
  entitlement gets none.
\<close>

theorem promotion_cascade_witness:
  "distinct (map pk (course_runs review_db)) \<and> distinct (map pk (seats review_db))
   \<and> distinct (map pk (entitlements review_db)) \<and> distinct (map pk (restricted_runs review_db))
   \<and> update_or_create_official_version example_env 100 (mk_run 1 True None 1 Reviewed None None) review_db
        = Inr (promoted_db, mk_run 2 False (Some 1) 2 Reviewed None None, [])
   \<and> official_version (seats promoted_db) 1 = Some (mk_seat 3 False (Some 1) 2 ''verified'' 4900)
   \<and> official_version (seats promoted_db) 2 = Some (mk_seat 4 False (Some 2) 2 ''audit'' 0)
   \<and> official_version (entitlements promoted_db) 1 = Some (mk_entitlement 3 False (Some 1) 2 ''verified'')
   \<and> {y \<in> set (entitlements promoted_db). draft_version y = Some 2} = {}
   \<and> official_version (restricted_runs promoted_db) 1
        = Some \<lparr>pk = 2, draft = False, draft_version = Some 1, restricted_course_run = 2,
                restriction_type = Some ''custom-b2b-enterprise''\<rparr>"
proof -
  note cascade = promotion_cascade[OF review_db_rows(1,3,4,5,6,7) review_db_promoted]
  have audit: "mk_entitlement 2 True None 1 ''audit'' \<in> set (entitlements review_db)"
    "\<not> (entitlement_course (mk_entitlement 2 True None 1 ''audit'')
           = pk ((mk_course 1 True None ''course-v1:X+1'')
                   \<lparr>canonical_course_run := Some 1, data_modified_timestamp := Some 5\<rparr>)
         \<and> mode (mk_entitlement 2 True None 1 ''audit'') \<in> set ENTITLEMENT_MODES
         \<and> draft (mk_entitlement 2 True None 1 ''audit''))"
    by (simp_all add: promote_defs ex_defs)
  from cascade have "\<forall>x \<in> set (entitlements review_db).
            \<not> (entitlement_course x = pk ((mk_course 1 True None ''course-v1:X+1'')
                   \<lparr>canonical_course_run := Some 1, data_modified_timestamp := Some 5\<rparr>)
               \<and> mode x \<in> set ENTITLEMENT_MODES \<and> draft x) \<longrightarrow>
            {y \<in> set (entitlements promoted_db). draft_version y = Some (pk x)}
              = {y \<in> set (entitlements review_db). draft_version y = Some (pk x)}"
    by (elim conjE)
  from this[rule_format, OF audit]
  have "{y \<in> set (entitlements promoted_db). draft_version y = Some 2}
          = {y \<in> set (entitlements review_db). draft_version y = Some 2}"
    by (simp add: mk_entitlement_def)
  also have "\<dots> = {}" by (auto simp: promote_defs ex_defs)
  finally have none: "{y \<in> set (entitlements promoted_db). draft_version y = Some 2} = {}" .
  have rows: "official_version (seats promoted_db) 1 = Some (mk_seat 3 False (Some 1) 2 ''verified'' 4900)"
    "official_version (seats promoted_db) 2 = Some (mk_seat 4 False (Some 2) 2 ''audit'' 0)"
    "official_version (entitlements promoted_db) 1 = Some (mk_entitlement 3 False (Some 1) 2 ''verified'')"
    "official_version (restricted_runs promoted_db) 1
        = Some \<lparr>pk = 2, draft = False, draft_version = Some 1, restricted_course_run = 2,
                restriction_type = Some ''custom-b2b-enterprise''\<rparr>"
    by (simp_all add: promote_defs ex_defs official_version_def)
  show ?thesis
    using review_db_rows(1,3,4,5) review_db_promoted rows none by simp
qed

end
